theory Spec2Isabelle
  imports Main "HOL-Library.Sublist"
begin

section \<open>JavaScript strings\<close>

text \<open>
  A JavaScript string is modelled as a \<^typ>\<open>string\<close> whose characters are the code units
  0..255 (the Latin-1 range, which contains every character of the command names, theme
  names and templates of the source). On this range \<open>trim\<close>, \<open>toLowerCase\<close> and
  \<open>split(' ')\<close> are modelled exactly; glyphs of the source outside the range (bullets,
  emoji) are kept as named constants holding their UTF-8 bytes.
\<close>

definition nl :: string where
  "nl = [CHR 0x0A]"

text \<open>\<open>String.prototype.trim\<close> strips WhiteSpace and LineTerminator code points: TAB, LF,
  VT, FF, CR, SP and NBSP are the ones below 256.\<close>

definition is_whitespace :: "char \<Rightarrow> bool" where
  "is_whitespace c = ((of_char c :: nat) \<in> {9, 10, 11, 12, 13, 32, 160})"

definition trim :: "string \<Rightarrow> string" where
  "trim s = rev (dropWhile is_whitespace (rev (dropWhile is_whitespace s)))"

text \<open>\<open>toLowerCase\<close>: A-Z and the Latin-1 capitals (all of 0xC0..0xDE but the
  multiplication sign 0xD7) move up by 32; every other code unit below 256 stays.\<close>

definition toLowerCase_char :: "char \<Rightarrow> char" where
  "toLowerCase_char c =
     (let n = (of_char c :: nat)
      in if (65 \<le> n \<and> n \<le> 90) \<or> (192 \<le> n \<and> n \<le> 222 \<and> n \<noteq> 215)
         then char_of (n + 32) else c)"

definition toLowerCase :: "string \<Rightarrow> string" where
  "toLowerCase s = map toLowerCase_char s"

text \<open>\<open>toUpperCase\<close>: a-z and the Latin-1 small letters (all of 0xE0..0xFE but the division
  sign 0xF7) move down by 32, and the sharp s (0xDF) becomes \<open>SS\<close>. The capitals of the
  micro sign (0xB5) and of y with diaeresis (0xFF) are U+039C and U+0178, which lie outside
  the range: like the glyphs they are given by their UTF-8 bytes. Every other code unit
  below 256 stays.\<close>

definition toUpperCase_char :: "char \<Rightarrow> string" where
  "toUpperCase_char c =
     (let n = (of_char c :: nat)
      in if (97 \<le> n \<and> n \<le> 122) \<or> (224 \<le> n \<and> n \<le> 254 \<and> n \<noteq> 247)
         then [char_of (n - 32)]
         else if n = 223 then ''SS''
         else if n = 181 then [CHR 0xCE, CHR 0x9C]
         else if n = 255 then [CHR 0xC5, CHR 0xB8]
         else [c])"

definition toUpperCase :: "string \<Rightarrow> string" where
  "toUpperCase s = concat (map toUpperCase_char s)"

text \<open>\<open>s.split(' ')\<close>: the pieces between single space characters. The result is never the
  empty array: \<open>''.split(' ')\<close> is \<open>['']\<close>, \<open>' a'.split(' ')\<close> is \<open>['', 'a']\<close>.\<close>

fun split_space :: "string \<Rightarrow> string list" where
  "split_space [] = [[]]"
| "split_space (c # cs) =
     (if c = CHR '' '' then [] # split_space cs
      else (case split_space cs of [] \<Rightarrow> [[c]] | w # ws \<Rightarrow> (c # w) # ws))"

text \<open>\<open>xs.join(sep)\<close>.\<close>

fun join :: "string \<Rightarrow> string list \<Rightarrow> string" where
  "join sep [] = []"
| "join sep [x] = x"
| "join sep (x # y # ys) = x @ sep @ join sep (y # ys)"

text \<open>\<open>s.startsWith(p)\<close>.\<close>

definition startsWith :: "string \<Rightarrow> string \<Rightarrow> bool" where
  "startsWith s p = prefix p s"

section \<open>command.models\<close>

datatype CommandExecutionState = IDLE | PROCESSING | SUCCESS | ERROR

definition AVAILABLE_COMMANDS :: "string list" where
  "AVAILABLE_COMMANDS =
     [''help'', ''summary'', ''aboutme'', ''skills'', ''experience'', ''education'',
      ''highlights'', ''tryme'', ''download'', ''clear'', ''theme'']"

section \<open>CommandService: validation and suggestions\<close>

text \<open>\<open>isValidCommand\<close>: \<open>command.split(' ')[0].toLowerCase()\<close> must be one of
  \<open>AVAILABLE_COMMANDS\<close>. The first case of the \<open>case\<close> is never taken
  (\<open>split_space\<close> returns at least one piece); in JavaScript it would be a TypeError.\<close>

definition isValidCommand :: "string \<Rightarrow> bool" where
  "isValidCommand command =
     (case split_space command of
        [] \<Rightarrow> False
      | baseCommand # _ \<Rightarrow> toLowerCase baseCommand \<in> set AVAILABLE_COMMANDS)"

text \<open>\<open>getCommandSuggestions\<close>: \<open>None\<close> stands for an absent (\<open>undefined\<close> or \<open>null\<close>)
  argument, which \<open>!partial\<close> treats like the empty string.\<close>

definition getCommandSuggestions :: "string option \<Rightarrow> string list" where
  "getCommandSuggestions partial =
     (case partial of
        None \<Rightarrow> AVAILABLE_COMMANDS
      | Some p \<Rightarrow>
          if p = [] then AVAILABLE_COMMANDS
          else (let lowerPartial = toLowerCase p
                in filter (\<lambda>cmd. startsWith (toLowerCase cmd) lowerPartial) AVAILABLE_COMMANDS))"

section \<open>CommandService: state, errors and output\<close>

text \<open>
  The three \<open>BehaviorSubject\<close>s of \<open>CommandService\<close> and the \<open>themeSubject\<close> of the
  \<open>SessionService\<close> collaborator are the fields of one record. \<open>emitted\<close> is a log of
  every \<open>next\<close> call on one of these subjects, oldest first: it records the order of the
  side effects, which the subjects' current values alone do not show.
\<close>

datatype emission =
    StateNext CommandExecutionState
  | CurrentNext "string option"
  | HistoryNext "string list"
  | ThemeNext string

record services =
  executionState :: CommandExecutionState
  currentCommand :: "string option"
  commandHistory :: "string list"
  currentTheme :: string
  emitted :: "emission list"

text \<open>A thrown value: a plain \<open>Error(message)\<close>, or the \<open>CommandError\<close> object built by
  \<open>createCommandError\<close> (code, message, suggestion, availableCommands).\<close>

datatype error =
    Error string
  | CommandError string string string "string list"

text \<open>\<open>error.message\<close>: a \<open>CommandError\<close> object has no such property.\<close>

fun message :: "error \<Rightarrow> string option" where
  "message (Error m) = Some m"
| "message (CommandError code m suggestion cmds) = None"

text \<open>\<open>a || b\<close> on an optional string: \<open>undefined\<close> and the empty string are falsy.\<close>

fun or_else :: "string option \<Rightarrow> string \<Rightarrow> string" where
  "or_else None d = d"
| "or_else (Some s) d = (if s = [] then d else s)"

definition getErrorSuggestion :: "string \<Rightarrow> string" where
  "getErrorSuggestion errorCode =
     (if errorCode = ''INVALID_COMMAND'' then ''Type 'help' to see available commands''
      else if errorCode = ''COMMAND_NOT_FOUND''
        then ''Check spelling or type 'help' for available commands''
      else if errorCode = ''RATE_LIMIT'' then ''Please wait a few seconds before trying again''
      else if errorCode = ''TIMEOUT'' then ''Check your internet connection and try again''
      else ''Type 'help' for assistance'')"

definition createCommandError :: "string \<Rightarrow> string \<Rightarrow> string option \<Rightarrow> error" where
  "createCommandError code msg suggestion =
     CommandError code msg (or_else suggestion (getErrorSuggestion code)) AVAILABLE_COMMANDS"

text \<open>
  The \<open>content\<close> of an output: a string, an array of strings, or (see \<open>property\<close> below) a
  member that a parsed JSON object inherits from \<open>Object.prototype\<close>, named by its key.
\<close>

datatype payload = Text string | Items "string list" | Inherited string

record formatting =
  color :: string
  animation :: "(bool \<times> nat) option"

record action =
  action_id :: string
  action_label :: string
  action_type :: string

record OutputContent =
  content :: payload
  otype :: string
  format :: "formatting option"
  actions :: "action list"

text \<open>\<open>CommandOutput\<close> without \<open>executionTime\<close> (a random number) and \<open>metadata\<close> (read
  from the clock).\<close>

record CommandOutput =
  data_output :: OutputContent
  nextSuggestions :: "string list"

definition plain :: "payload \<Rightarrow> string \<Rightarrow> string \<Rightarrow> OutputContent" where
  "plain c t col =
     \<lparr>content = c, otype = t, format = Some \<lparr>color = col, animation = None\<rparr>,
       actions = []\<rparr>"

text \<open>
  What the collaborators answer. An observable is represented by the one notification it
  delivers to a subscriber: \<open>Inr\<close> a value, or \<open>Inl\<close> an error.
  \<^item> \<open>skillsJson\<close>: \<open>http.get('/assets/skills.json')\<close>, a JSON object from category to
    skills, in the order of \<open>Object.entries\<close>;
  \<^item> \<open>highlightsJson\<close>: \<open>http.get('/assets/highlights.json')\<close>;
  \<^item> \<open>assetText\<close>: for \<open>summary\<close>, \<open>aboutme\<close>, \<open>experience\<close>, \<open>education\<close> and \<open>tryme\<close>, the
    text their template makes of the fetched asset (the templates are not modelled);
  \<^item> \<open>helpContent\<close>: the text of \<open>generateHelpContent()\<close>;
  \<^item> \<open>downloadThrows\<close>: whether creating and clicking the download link throws;
  \<^item> \<open>AVAILABLE_THEMES\<close>: name and display name of each theme of \<open>session.models\<close>, in the
    order of \<open>Object.values\<close>;
  \<^item> \<open>preferencesFailure\<close>: the error, if any, of the observable of
    \<open>SessionService.updatePreferences\<close>.
\<close>

record env =
  skillsJson :: "error + (string \<times> string list) list"
  highlightsJson :: "error + string list"
  assetText :: "string \<Rightarrow> error + string"
  helpContent :: string
  downloadThrows :: bool
  AVAILABLE_THEMES :: "(string \<times> string) list"
  preferencesFailure :: "error option"

section \<open>CommandService: the content resolver\<close>

definition quote :: string where
  "quote = [CHR 0x27]"

definition bullet :: string where
  "bullet = [CHR 0xE2, CHR 0x80, CHR 0xA2]"

definition cross_mark :: string where
  "cross_mark = [CHR 0xE2, CHR 0x9D, CHR 0x8C]"

definition check_mark :: string where
  "check_mark = [CHR 0xE2, CHR 0x9C, CHR 0x85]"

definition page_glyph :: string where
  "page_glyph = [CHR 0xF0, CHR 0x9F, CHR 0x93, CHR 0x84]"

text \<open>
  \<open>data[key]\<close> on an object parsed from JSON: an own property if there is one, else what
  the object inherits from \<open>Object.prototype\<close>, else \<open>undefined\<close> (\<open>None\<close>). Every value
  found is truthy: an array (even an empty one), a function or the prototype object.
\<close>

definition object_prototype_keys :: "string list" where
  "object_prototype_keys =
     [''constructor'', ''__proto__'', ''hasOwnProperty'', ''isPrototypeOf'',
      ''propertyIsEnumerable'', ''toLocaleString'', ''toString'', ''valueOf'',
      ''__defineGetter__'', ''__defineSetter__'', ''__lookupGetter__'', ''__lookupSetter__'']"

definition property :: "(string \<times> string list) list \<Rightarrow> string \<Rightarrow> payload option" where
  "property data key =
     (case map_of data key of
        Some skills \<Rightarrow> Some (Items skills)
      | None \<Rightarrow> if key \<in> set object_prototype_keys then Some (Inherited key) else None)"

text \<open>The text that shows all skills organized by category.\<close>

definition allSkills :: "(string \<times> string list) list \<Rightarrow> OutputContent" where
  "allSkills data =
     plain (Text (''Technical Skills:'' @ nl @ nl @
                  join (nl @ nl)
                    (map (\<lambda>(cat, skills).
                            toUpperCase cat @ '':'' @ nl @
                            join nl (map (\<lambda>skill. bullet @ '' '' @ skill) skills)) data) @
                  nl @ nl @ ''Use 'skills [category]' to view specific categories.''))
       ''text'' ''blue''"

text \<open>The callback of the \<open>skills\<close> case; \<open>args\<close> gives \<open>category = args[0]\<close>, which is
  falsy when absent or empty.\<close>

definition skills :: "string list \<Rightarrow> (string \<times> string list) list \<Rightarrow> OutputContent" where
  "skills args data =
     (case args of
        [] \<Rightarrow> allSkills data
      | category # _ \<Rightarrow>
          if category = [] then allSkills data
          else (case property data category of
                  Some v \<Rightarrow> plain v ''list'' ''blue''
                | None \<Rightarrow> allSkills data))"

text \<open>
  \<open>SessionService.changeTheme\<close>: the guard \<open>!AVAILABLE_THEMES[theme]\<close> (which an own or
  an inherited member of the table passes), then \<open>themeSubject.next(theme)\<close>, then the
  observable of \<open>updatePreferences\<close> mapped to the theme, then \<open>applyThemeToDocument\<close> in
  \<open>tap\<close>. For a theme of the table the restyling of the document is not modelled; for an
  inherited member, which has no \<open>colors\<close>, \<open>Object.entries(themeConfig.colors)\<close> throws
  a TypeError (its message is the engine's; the one of Chrome is used), which the
  observable delivers as its error.
  Storing the preferences is not modelled.
\<close>

definition changeTheme :: "env \<Rightarrow> services \<Rightarrow> string \<Rightarrow> services \<times> (error + string)" where
  "changeTheme env st theme =
     (if map_of (AVAILABLE_THEMES env) theme = None \<and> theme \<notin> set object_prototype_keys
      then (st, Inl (Error (''Invalid theme: '' @ theme)))
      else (st\<lparr>currentTheme := theme, emitted := emitted st @ [ThemeNext theme]\<rparr>,
            case preferencesFailure env of
              Some e \<Rightarrow> Inl e
            | None \<Rightarrow>
                if map_of (AVAILABLE_THEMES env) theme = None
                then Inl (Error ''Cannot convert undefined or null to object'')
                else Inr theme))"

text \<open>The four outputs of the \<open>theme\<close> command: the list of the session's available
  themes, the invalid-theme error, the confirmation, and the failure of the change.\<close>

definition theme_list :: "env \<Rightarrow> OutputContent" where
  "theme_list env =
     plain (Text (''Available themes:'' @ nl @ nl @
                  join nl (map (\<lambda>(name, displayName).
                                  bullet @ '' '' @ name @ '' - '' @ displayName)
                             (AVAILABLE_THEMES env)) @
                  nl @ nl @ ''Usage: theme <name>''))
       ''text'' ''blue''"

definition invalid_theme :: "string \<Rightarrow> OutputContent" where
  "invalid_theme themeName =
     plain (Text (cross_mark @ '' Invalid theme: '' @ quote @ themeName @ quote @ nl @ nl @
                  ''Available themes: dark, light'' @ nl @ nl @ ''Usage: theme <name>''))
       ''text'' ''red''"

definition theme_changed :: "string \<Rightarrow> OutputContent" where
  "theme_changed theme =
     \<lparr>content = Text (check_mark @ '' Theme changed to: '' @ theme @ nl @ nl @
                       ''The '' @ theme @ '' theme has been applied to the terminal.''),
      otype = ''text'',
      format = Some \<lparr>color = ''green'', animation = Some (True, 30)\<rparr>,
      actions = []\<rparr>"

definition theme_failed :: "error \<Rightarrow> OutputContent" where
  "theme_failed e =
     plain (Text (cross_mark @ '' Failed to change theme: '' @
                  or_else (message e) ''Unknown error'' @ nl @ nl @
                  ''Available themes: dark, light''))
       ''text'' ''red''"

text \<open>\<open>executeThemeCommand\<close> never fails: \<open>catchError\<close> turns a failed change into an
  output.\<close>

definition executeThemeCommand ::
  "env \<Rightarrow> services \<Rightarrow> string list \<Rightarrow> services \<times> (error + OutputContent)" where
  "executeThemeCommand env st args =
     (case args of
        [] \<Rightarrow> (st, Inr (theme_list env))
      | a # _ \<Rightarrow>
          (let themeName = toLowerCase a
           in if themeName \<noteq> ''dark'' \<and> themeName \<noteq> ''light''
              then (st, Inr (invalid_theme themeName))
              else (case changeTheme env st themeName of
                      (st', Inr theme) \<Rightarrow> (st', Inr (theme_changed theme))
                    | (st', Inl e) \<Rightarrow> (st', Inr (theme_failed e)))))"

definition executeDownloadCommand :: "env \<Rightarrow> OutputContent" where
  "executeDownloadCommand env =
     (if downloadThrows env
      then plain (Text (cross_mark @
                    '' Download failed. Please try again or contact support.'' @ nl @ nl @
                    ''Error: Unable to generate resume file.'')) ''text'' ''red''
      else \<lparr>content = Text (page_glyph @ '' Resume downloaded successfully!'' @ nl @ nl @
                ''File: Joseph_Lee_Resume_B.pdf'' @ nl @ ''Location: Downloads folder'' @ nl @ nl @
                ''The resume contains my complete professional background, skills, and experience.''),
             otype = ''interactive'',
             format = Some \<lparr>color = ''green'', animation = Some (True, 30)\<rparr>,
             actions = [\<lparr>action_id = ''download-resume'', action_label = ''Download Resume'',
                         action_type = ''download''\<rparr>]\<rparr>)"

definition generateResponseFromAssets ::
  "env \<Rightarrow> services \<Rightarrow> string \<Rightarrow> string list \<Rightarrow> services \<times> (error + OutputContent)" where
  "generateResponseFromAssets env st command args =
     (if command = ''help'' then (st, Inr (plain (Text (helpContent env)) ''text'' ''cyan''))
      else if command = ''summary''
        then (st, map_sum id (\<lambda>t. plain (Text t) ''text'' ''green'') (assetText env command))
      else if command = ''aboutme''
        then (st, map_sum id (\<lambda>t. plain (Text t) ''text'' ''cyan'') (assetText env command))
      else if command = ''skills'' then (st, map_sum id (skills args) (skillsJson env))
      else if command = ''experience''
        then (st, map_sum id (\<lambda>t. plain (Text t) ''text'' ''blue'') (assetText env command))
      else if command = ''education''
        then (st, map_sum id (\<lambda>t. plain (Text t) ''text'' ''purple'') (assetText env command))
      else if command = ''highlights''
        then (st, map_sum id (\<lambda>d. plain (Items d) ''list'' ''yellow'') (highlightsJson env))
      else if command = ''tryme''
        then (st, map_sum id (\<lambda>t. plain (Text t) ''text'' ''green'') (assetText env command))
      else if command = ''download'' then (st, Inr (executeDownloadCommand env))
      else if command = ''theme'' then executeThemeCommand env st args
      else (st, Inr (plain (Text (''Command '' @ quote @ command @ quote @
                       '' is recognized but not yet implemented.'' @ nl @ nl @
                       ''Available commands: help, summary, aboutme, skills, experience, education, highlights, tryme, download, theme''))
                     ''text'' ''orange'')))"

definition getNextSuggestions :: "string \<Rightarrow> string list" where
  "getNextSuggestions command =
     (if command = ''help'' then [''summary'', ''aboutme'', ''skills'', ''experience'']
      else if command = ''summary'' then [''aboutme'', ''skills'', ''experience'', ''tryme'']
      else if command = ''aboutme'' then [''summary'', ''skills'', ''experience'', ''tryme'']
      else if command = ''skills'' then [''experience'', ''education'', ''highlights'', ''tryme'']
      else if command = ''experience'' then [''education'', ''skills'', ''highlights'', ''tryme'']
      else if command = ''education'' then [''skills'', ''experience'', ''highlights'', ''tryme'']
      else if command = ''highlights'' then [''summary'', ''aboutme'', ''tryme'', ''download'']
      else if command = ''tryme'' then [''download'', ''summary'', ''skills'', ''experience'']
      else if command = ''download'' then [''summary'', ''aboutme'', ''skills'', ''theme'']
      else if command = ''theme'' then [''help'', ''summary'', ''aboutme'', ''skills'']
      else [''help'', ''summary'', ''aboutme'', ''skills''])"

text \<open>
  \<open>executeOfflineCommand\<close>: \<open>const [cmd, ...args] = command.split(' ')\<close>, the resolver, then
  \<open>map\<close> wraps a value into a \<open>CommandOutput\<close> and \<open>catchError\<close> rethrows any error as an
  \<open>EXECUTION_ERROR\<close>. (An empty array, which \<open>split\<close> never returns, would leave \<open>cmd\<close>
  undefined.)
\<close>

definition executeOfflineCommand ::
  "env \<Rightarrow> services \<Rightarrow> string \<Rightarrow> services \<times> (error + CommandOutput)" where
  "executeOfflineCommand env st command =
     (let (cmd, args) = (case split_space command of [] \<Rightarrow> (''undefined'', []) | c # a \<Rightarrow> (c, a));
          (st', r) = generateResponseFromAssets env st cmd args
      in (st', case r of
                 Inr out \<Rightarrow> Inr \<lparr>data_output = out, nextSuggestions = getNextSuggestions cmd\<rparr>
               | Inl e \<Rightarrow> Inl (createCommandError ''EXECUTION_ERROR''
                                 (or_else (message e) ''Command execution failed'') None)))"

section \<open>CommandService: execution state and history\<close>

definition isProcessing :: "services \<Rightarrow> bool" where
  "isProcessing st = (executionState st = PROCESSING)"

definition setExecutionState :: "services \<Rightarrow> CommandExecutionState \<Rightarrow> services" where
  "setExecutionState st s = st\<lparr>executionState := s, emitted := emitted st @ [StateNext s]\<rparr>"

definition currentCommandNext :: "services \<Rightarrow> string option \<Rightarrow> services" where
  "currentCommandNext st c = st\<lparr>currentCommand := c, emitted := emitted st @ [CurrentNext c]\<rparr>"

definition commandHistoryNext :: "services \<Rightarrow> string list \<Rightarrow> services" where
  "commandHistoryNext st h = st\<lparr>commandHistory := h, emitted := emitted st @ [HistoryNext h]\<rparr>"

text \<open>
  \<open>addToHistory\<close>: \<open>lastCommand\<close> is \<open>currentHistory[currentHistory.length - 1]\<close>, which is
  \<open>undefined\<close> (and so different from every command) when the history is empty;
  \<open>newHistory.shift()\<close> drops the first entry.
\<close>

definition addToHistory :: "services \<Rightarrow> string \<Rightarrow> services" where
  "addToHistory st command =
     (let currentHistory = commandHistory st
      in if currentHistory = [] \<or> last currentHistory \<noteq> command
         then (let newHistory = currentHistory @ [command]
               in commandHistoryNext st
                    (if length newHistory > 50 then tl newHistory else newHistory))
         else st)"

definition clearHistory :: "services \<Rightarrow> services" where
  "clearHistory st = commandHistoryNext st []"

definition getHistory :: "services \<Rightarrow> string list" where
  "getHistory st = commandHistory st"

text \<open>
  The observable that \<open>executeCommand\<close> returns when it accepts a command:
  \<open>source\<close> is what the piped \<open>executeOfflineCommand\<close> delivers, \<open>trimmedCommand\<close> is the
  command that the callback given to \<open>finalize\<close> has captured.
\<close>

record pending =
  source :: "error + CommandOutput"
  trimmedCommand :: string

text \<open>
  \<open>executeCommand\<close>. \<open>Inl e\<close> is the observable \<open>throwError(() => e)\<close>, which carries no
  \<open>finalize\<close>. The resolver is called at once (its \<open>changeTheme\<close> takes effect here);
  its result is delivered on subscription.
\<close>

definition executeCommand ::
  "env \<Rightarrow> services \<Rightarrow> string \<Rightarrow> string \<Rightarrow> services \<times> (error + pending)" where
  "executeCommand env st command sessionId =
     (if isProcessing st then (st, Inl (Error ''Another command is currently processing''))
      else (let trimmed = toLowerCase (trim command)
            in if \<not> isValidCommand trimmed
               then (st, Inl (createCommandError ''INVALID_COMMAND''
                               (''Command '' @ quote @ command @ quote @ '' not recognized'') None))
               else (let st1 = setExecutionState st PROCESSING;
                         st2 = currentCommandNext st1 (Some trimmed);
                         (st3, r) = executeOfflineCommand env st2 trimmed
                     in (st3, Inr \<lparr>source = r, trimmedCommand = trimmed\<rparr>))))"

text \<open>The callback given to \<open>finalize\<close>, for the captured command.\<close>

definition finalize :: "services \<Rightarrow> string \<Rightarrow> services" where
  "finalize st trimmed =
     addToHistory (currentCommandNext (setExecutionState st IDLE) None) trimmed"

text \<open>
  Subscribing to the returned observable until it terminates: the subscriber receives the
  value or the error of \<open>source\<close>, and \<open>finalize\<close> runs its callback on either termination.
  \<open>st\<close> is the state of the services at that moment.
\<close>

definition subscribe :: "services \<Rightarrow> pending \<Rightarrow> services \<times> (error + CommandOutput)" where
  "subscribe st p = (finalize st (trimmedCommand p), source p)"

section \<open>CommandHistoryService\<close>

record history_service =
  history :: "string list"
  currentIndex :: int
  tempCommand :: string

definition maxHistorySize :: nat where
  "maxHistorySize = 50"

text \<open>A new \<open>CommandHistoryService\<close>: \<open>currentIndex = -1\<close>.\<close>

definition new_history_service :: history_service where
  "new_history_service = \<lparr>history = [], currentIndex = - 1, tempCommand = []\<rparr>"

definition addCommand :: "history_service \<Rightarrow> string \<Rightarrow> history_service" where
  "addCommand h command =
     (if trim command = [] then h
      else (let currentHistory = history h;
                h' = (if currentHistory = [] \<or> last currentHistory \<noteq> trim command
                      then (let newHistory = currentHistory @ [trim command]
                            in h\<lparr>history := (if length newHistory > maxHistorySize
                                              then tl newHistory else newHistory)\<rparr>)
                      else h)
            in h'\<lparr>currentIndex := int (length (history h')), tempCommand := []\<rparr>))"

text \<open>\<open>getPreviousCommand\<close> and \<open>getNextCommand\<close> return the new state and the string, or
  \<open>None\<close> for \<open>null\<close>. A read of \<open>history[i]\<close> out of range gives \<open>undefined\<close>, which is
  \<open>None\<close> here as well.\<close>

definition getPreviousCommand :: "history_service \<Rightarrow> history_service \<times> string option" where
  "getPreviousCommand h =
     (if history h = [] then (h, None)
      else if currentIndex h > 0
        then (let h' = h\<lparr>currentIndex := currentIndex h - 1\<rparr>
              in (h', if currentIndex h' < int (length (history h))
                      then Some (history h ! nat (currentIndex h')) else None))
      else (h, None))"

definition getNextCommand :: "history_service \<Rightarrow> history_service \<times> string option" where
  "getNextCommand h =
     (if history h = [] then (h, None)
      else if currentIndex h < int (length (history h)) - 1
        then (let h' = h\<lparr>currentIndex := currentIndex h + 1\<rparr>
              in (h', if 0 \<le> currentIndex h'
                      then Some (history h ! nat (currentIndex h')) else None))
      else if currentIndex h = int (length (history h)) - 1
        then (h\<lparr>currentIndex := int (length (history h))\<rparr>, Some (tempCommand h))
      else (h, None))"

definition setTempCommand :: "history_service \<Rightarrow> string \<Rightarrow> history_service" where
  "setTempCommand h command = h\<lparr>tempCommand := command\<rparr>"

definition resetNavigation :: "history_service \<Rightarrow> history_service" where
  "resetNavigation h = h\<lparr>currentIndex := int (length (history h)), tempCommand := []\<rparr>"

section \<open>OutputFormatterService: text\<close>

text \<open>In a regular expression, \<open>.\<close> matches any code unit but a line terminator (LF and CR
  are the ones below 256).\<close>

definition is_line_terminator :: "char \<Rightarrow> bool" where
  "is_line_terminator c = (c = CHR 0x0A \<or> c = CHR 0x0D)"

text \<open>
  \<open>(.*?)d\<close> matched at the start of a string: the shortest run \<open>x\<close> of characters other
  than line terminators that is followed by the delimiter \<open>d\<close>, with what follows \<open>d\<close>.
\<close>

fun lazy_until :: "string \<Rightarrow> string \<Rightarrow> (string \<times> string) option" where
  "lazy_until d [] = (if d = [] then Some ([], []) else None)"
| "lazy_until d (c # cs) =
     (if prefix d (c # cs) then Some ([], drop (length d) (c # cs))
      else if is_line_terminator c then None
      else map_option (\<lambda>(x, r). (c # x, r)) (lazy_until d cs))"

text \<open>
  \<open>s.replace(/d(.*?)d/g, opn + '$1' + cls)\<close> for a non-empty literal delimiter \<open>d\<close>: the
  matches are found from left to right, each search starting where the last match ended.
\<close>

function replace_delimited :: "string \<Rightarrow> string \<Rightarrow> string \<Rightarrow> string \<Rightarrow> string" where
  "replace_delimited d opn cls [] = []"
| "replace_delimited d opn cls (c # cs) =
     (if d \<noteq> [] \<and> prefix d (c # cs)
      then (case lazy_until d (drop (length d) (c # cs)) of
              Some (x, rest) \<Rightarrow> opn @ x @ cls @ replace_delimited d opn cls rest
            | None \<Rightarrow> c # replace_delimited d opn cls cs)
      else c # replace_delimited d opn cls cs)"
  by pat_completeness auto
termination
proof (relation "measure (\<lambda>(d, opn, cls, s). length s)")
  show "wf (measure (\<lambda>(d, opn, cls, s). length s))"
    by simp
next
  fix d opn cls :: string and c :: char and cs :: string and x2 :: "string \<times> string"
    and x rest :: string
  assume d: "d \<noteq> [] \<and> prefix d (c # cs)"
    and found: "lazy_until d (drop (length d) (c # cs)) = Some x2" and x2: "(x, rest) = x2"
  have shorter: "lazy_until d t = Some (y, r) \<Longrightarrow> length r \<le> length t" for t y r
  proof (induction t arbitrary: y)
    case Nil
    then show ?case by (simp split: if_splits)
  next
    case (Cons a t)
    then show ?case by (fastforce split: if_splits)
  qed
  from d have "length (drop (length d) (c # cs)) \<le> length cs"
    by (cases d) simp_all
  moreover from found x2 have "length rest \<le> length (drop (length d) (c # cs))"
    using shorter by metis
  ultimately show "((d, opn, cls, rest), (d, opn, cls, c # cs)) \<in> measure (\<lambda>(d, opn, cls, s). length s)"
    by simp
qed simp_all

text \<open>\<open>s.replace(/\n/g, '<br>')\<close>.\<close>

definition replace_newlines :: "string \<Rightarrow> string" where
  "replace_newlines s = concat (map (\<lambda>c. if c = CHR 0x0A then ''<br>'' else [c]) s)"

definition processTextContent :: "string \<Rightarrow> string" where
  "processTextContent c =
     replace_newlines
       (replace_delimited ''`'' ''<code>'' ''</code>''
          (replace_delimited ''*'' ''<em>'' ''</em>''
             (replace_delimited ''**'' ''<strong>'' ''</strong>'' c)))"

definition formatText :: "string \<Rightarrow> formatting option \<Rightarrow> OutputContent" where
  "formatText c f =
     \<lparr>content = Text (processTextContent c), otype = ''text'', format = f, actions = []\<rparr>"

section \<open>Notions of the specification\<close>

text \<open>The first whitespace-delimited token of a string: what comes before its first
  whitespace character.\<close>

definition first_token :: "string \<Rightarrow> string" where
  "first_token s = takeWhile (\<lambda>c. \<not> is_whitespace c) s"

text \<open>\<open>p\<close> is a case-insensitive prefix of \<open>name\<close>: the first \<open>length p\<close> characters of
  \<open>name\<close> are \<open>p\<close> up to letter case.\<close>

definition case_insensitive_prefix :: "string \<Rightarrow> string \<Rightarrow> bool" where
  "case_insensitive_prefix p name = (toLowerCase (take (length p) name) = toLowerCase p)"

text \<open>
  A string contains an inline marker with delimiter \<open>d\<close> when some part of it is \<open>d\<close>, a
  run \<open>x\<close> without line terminator, and \<open>d\<close> again: this is when the regular expression
  \<open>/d(.*?)d/\<close> has a match. A marker-free string has no bold marker (\<open>**x**\<close>), no italic
  marker (\<open>*x*\<close>), no inline-code marker and no newline.
\<close>

definition has_marker :: "string \<Rightarrow> string \<Rightarrow> bool" where
  "has_marker d s =
     (\<exists>pre x post. s = pre @ d @ x @ d @ post \<and> (\<forall>c \<in> set x. \<not> is_line_terminator c))"

definition marker_free :: "string \<Rightarrow> bool" where
  "marker_free s =
     (\<not> has_marker ''**'' s \<and> \<not> has_marker ''*'' s \<and> \<not> has_marker ''`'' s \<and>
      CHR 0x0A \<notin> set s)"

text \<open>\<open>n\<close> calls of \<open>getPreviousCommand\<close> (of \<open>getNextCommand\<close>) in a row: the final state and
  the values returned, in the order of the calls.\<close>

fun previous_calls :: "nat \<Rightarrow> history_service \<Rightarrow> history_service \<times> string option list" where
  "previous_calls 0 h = (h, [])"
| "previous_calls (Suc n) h =
     (let (h1, r) = getPreviousCommand h; (h2, rs) = previous_calls n h1 in (h2, r # rs))"

fun next_calls :: "nat \<Rightarrow> history_service \<Rightarrow> history_service \<times> string option list" where
  "next_calls 0 h = (h, [])"
| "next_calls (Suc n) h =
     (let (h1, r) = getNextCommand h; (h2, rs) = next_calls n h1 in (h2, r # rs))"

section \<open>Initial state and example collaborators\<close>

text \<open>The initial values of the subjects: \<open>IDLE\<close>, \<open>null\<close>, \<open>[]\<close>, and the theme \<open>'dark'\<close>.\<close>

definition initial_services :: services where
  "initial_services =
     \<lparr>executionState = IDLE, currentCommand = None, commandHistory = [],
      currentTheme = ''dark'', emitted = []\<rparr>"

text \<open>One possible set of answers of the collaborators, for concrete runs.\<close>

definition example_env :: env where
  "example_env =
     \<lparr>skillsJson = Inr [(''frontend'', [''Angular'', ''TypeScript'', ''RxJS'']),
                        (''backend'', [''Node.js'']), (''tools'', [''Git''])],
      highlightsJson = Inr [''Shipped a terminal portfolio''],
      assetText = (\<lambda>c. Inr (''asset text of '' @ c)),
      helpContent = ''Available Commands'',
      downloadThrows = False,
      AVAILABLE_THEMES = [(''dark'', ''Dark Terminal''), (''light'', ''Light Terminal'')],
      preferencesFailure = None\<rparr>"

text \<open>A full history of fifty entries, and a history service at the live-input position
  with a saved input.\<close>

definition fifty_commands :: "string list" where
  "fifty_commands = concat (replicate 25 [''help'', ''skills''])"

definition example_history :: history_service where
  "example_history =
     \<lparr>history = [''help'', ''skills'', ''theme''], currentIndex = 3, tempCommand = ''exp''\<rparr>"

section \<open>Strings: basic facts\<close>

lemma of_char_toLowerCase_char:
  "(of_char (toLowerCase_char c) :: nat) =
     (let n = of_char c
      in if (65 \<le> n \<and> n \<le> 90) \<or> (192 \<le> n \<and> n \<le> 222 \<and> n \<noteq> 215) then n + 32 else n)"
  by (auto simp: toLowerCase_char_def Let_def of_char_of)

lemma is_whitespace_toLowerCase_char [simp]:
  "is_whitespace (toLowerCase_char c) \<longleftrightarrow> is_whitespace c"
  unfolding is_whitespace_def of_char_toLowerCase_char Let_def
  by (cases "65 \<le> (of_char c :: nat) \<and> (of_char c :: nat) \<le> 90 \<or> 192 \<le> (of_char c :: nat) \<and> (of_char c :: nat) \<le> 222 \<and> (of_char c :: nat) \<noteq> 215") auto

lemma toLowerCase_char_idem [simp]:
  "toLowerCase_char (toLowerCase_char c) = toLowerCase_char c"
proof -
  have "(of_char (toLowerCase_char (toLowerCase_char c)) :: nat) = of_char (toLowerCase_char c)"
    by (auto simp: of_char_toLowerCase_char Let_def)
  then show ?thesis
    by (simp only: of_char_eq_iff)
qed

lemma toLowerCase_idem [simp]: "toLowerCase (toLowerCase s) = toLowerCase s"
  by (simp add: toLowerCase_def)

lemma is_whitespace_space [simp]: "is_whitespace (CHR '' '')"
  by (simp add: is_whitespace_def)

lemma split_space_not_Nil [simp]: "split_space s \<noteq> []"
  by (induction s) (simp_all split: list.splits)

lemma hd_split_space: "hd (split_space s) = takeWhile (\<lambda>c. c \<noteq> CHR '' '') s"
proof (induction s)
  case Nil
  show ?case by simp
next
  case (Cons a s)
  then show ?case
    by (cases "split_space s") simp_all
qed

lemma isValidCommand_iff:
  "isValidCommand s \<longleftrightarrow> toLowerCase (takeWhile (\<lambda>c. c \<noteq> CHR '' '') s) \<in> set AVAILABLE_COMMANDS"
proof (cases "split_space s")
  case Nil
  then show ?thesis by simp
next
  case (Cons b bs)
  with hd_split_space [of s] have "takeWhile (\<lambda>c. c \<noteq> CHR '' '') s = b"
    by simp
  with Cons show ?thesis
    by (simp add: isValidCommand_def)
qed


lemma takeWhile_stronger:
  assumes "\<And>x. Q x \<Longrightarrow> P x" and "\<forall>x \<in> set (takeWhile P xs). Q x"
  shows "takeWhile Q xs = takeWhile P xs"
  using assms(2)
proof (induction xs)
  case Nil
  show ?case by simp
next
  case (Cons a xs)
  show ?case
  proof (cases "P a")
    case True
    with Cons show ?thesis by simp
  next
    case False
    with assms(1) have "\<not> Q a" by blast
    with False show ?thesis by simp
  qed
qed

lemma AVAILABLE_COMMANDS_checked:
  "list_all (\<lambda>c. toLowerCase c = c \<and> trim c = c \<and> list_all (\<lambda>x. \<not> is_whitespace x) c)
     AVAILABLE_COMMANDS"
  by code_simp

lemma AVAILABLE_COMMANDS_lower: "c \<in> set AVAILABLE_COMMANDS \<Longrightarrow> toLowerCase c = c"
  using AVAILABLE_COMMANDS_checked by (simp add: list_all_iff)

lemma AVAILABLE_COMMANDS_trim: "c \<in> set AVAILABLE_COMMANDS \<Longrightarrow> trim c = c"
  using AVAILABLE_COMMANDS_checked by (simp add: list_all_iff)

lemma AVAILABLE_COMMANDS_no_whitespace:
  "c \<in> set AVAILABLE_COMMANDS \<Longrightarrow> x \<in> set c \<Longrightarrow> \<not> is_whitespace x"
  using AVAILABLE_COMMANDS_checked by (simp add: list_all_iff)


section \<open>Validation\<close>

lemma lower_registered_no_space:
  assumes "toLowerCase v \<in> set AVAILABLE_COMMANDS" and "x \<in> set v"
  shows "\<not> is_whitespace x"
proof -
  from assms(2) have "toLowerCase_char x \<in> set (toLowerCase v)"
    by (simp add: toLowerCase_def)
  with assms(1) have "\<not> is_whitespace (toLowerCase_char x)"
    by (rule AVAILABLE_COMMANDS_no_whitespace)
  then show ?thesis by simp
qed

lemma isValidCommand_any_case:
  assumes "toLowerCase v \<in> set AVAILABLE_COMMANDS"
  shows "isValidCommand v" and "isValidCommand (v @ '' '' @ anything)"
proof -
  have "\<forall>x \<in> set v. x \<noteq> CHR '' ''"
    using lower_registered_no_space [OF assms] is_whitespace_space by blast
  then have "takeWhile (\<lambda>c. c \<noteq> CHR '' '') v = v"
    and "takeWhile (\<lambda>c. c \<noteq> CHR '' '') (v @ '' '' @ anything) = v"
    by (simp_all add: takeWhile_append2)
  with assms show "isValidCommand v" and "isValidCommand (v @ '' '' @ anything)"
    by (simp_all only: isValidCommand_iff)
qed

lemma isValidCommand_first_token:
  assumes "isValidCommand s"
  shows "toLowerCase (first_token s) \<in> set AVAILABLE_COMMANDS"
    and "dropWhile is_whitespace s = s"
proof -
  let ?b = "takeWhile (\<lambda>c. c \<noteq> CHR '' '') s"
  from assms have reg: "toLowerCase ?b \<in> set AVAILABLE_COMMANDS"
    by (simp only: isValidCommand_iff)
  then have nows: "\<forall>x \<in> set ?b. \<not> is_whitespace x"
    using lower_registered_no_space by blast
  have "\<not> is_whitespace x \<Longrightarrow> x \<noteq> CHR '' ''" for x
    using is_whitespace_space by blast
  then have "takeWhile (\<lambda>c. \<not> is_whitespace c) s = ?b"
    using nows by (rule takeWhile_stronger)
  with reg show "toLowerCase (first_token s) \<in> set AVAILABLE_COMMANDS"
    by (simp add: first_token_def)
  have "[] \<notin> set AVAILABLE_COMMANDS"
    by (simp add: AVAILABLE_COMMANDS_def)
  with reg have "?b \<noteq> []"
    by (auto simp: toLowerCase_def)
  then obtain x xs where s: "s = x # xs" and "x \<in> set ?b"
    by (cases s) (auto split: if_splits)
  with nows have "\<not> is_whitespace x" by blast
  with s show "dropWhile is_whitespace s = s" by simp
qed

text \<open>
  Claim C3. Every registered command name is valid, alone and followed by a space and
  anything; so is every spelling of it in other letter case. A string whose first
  whitespace-delimited token (read from the start of the string, or after skipping leading
  whitespace) is, in lower case, no registered name, is not valid.
\<close>

theorem isValidCommand_registry:
  "(\<forall>c \<in> set AVAILABLE_COMMANDS.
      isValidCommand c \<and> (\<forall>anything. isValidCommand (c @ '' '' @ anything)) \<and>
      (\<forall>v anything. toLowerCase v = c \<longrightarrow>
         isValidCommand v \<and> isValidCommand (v @ '' '' @ anything))) \<and>
   (\<forall>s. toLowerCase (first_token s) \<notin> set AVAILABLE_COMMANDS \<or>
        toLowerCase (first_token (dropWhile is_whitespace s)) \<notin> set AVAILABLE_COMMANDS \<longrightarrow>
        \<not> isValidCommand s)"
proof (intro conjI ballI allI impI)
  fix c assume c: "c \<in> set AVAILABLE_COMMANDS"
  then have low: "toLowerCase c \<in> set AVAILABLE_COMMANDS"
    by (simp add: AVAILABLE_COMMANDS_lower)
  show "isValidCommand c"
    using low by (rule isValidCommand_any_case)
  show "isValidCommand (c @ '' '' @ anything)" for anything
    using low by (rule isValidCommand_any_case)
  show "isValidCommand v" if "toLowerCase v = c" for v
    using that c isValidCommand_any_case(1) by blast
  show "isValidCommand (v @ '' '' @ anything)" if "toLowerCase v = c" for v anything
    using that c isValidCommand_any_case(2) by blast
next
  fix s
  assume "toLowerCase (first_token s) \<notin> set AVAILABLE_COMMANDS \<or>
        toLowerCase (first_token (dropWhile is_whitespace s)) \<notin> set AVAILABLE_COMMANDS"
  then show "\<not> isValidCommand s"
    using isValidCommand_first_token [of s] by auto
qed

theorem isValidCommand_registry_witness:
  "isValidCommand ''skills'' \<and> isValidCommand ''skills frontend'' \<and>
   isValidCommand ''Theme'' \<and> isValidCommand ''HELP me'' \<and> \<not> isValidCommand ''nonexistent 1''"
proof -
  have in_skills: "''skills'' \<in> set AVAILABLE_COMMANDS" and in_help: "''help'' \<in> set AVAILABLE_COMMANDS"
    and in_theme: "''theme'' \<in> set AVAILABLE_COMMANDS"
    by (simp_all add: AVAILABLE_COMMANDS_def)
  have up: "toLowerCase ''HELP'' = ''help''" "toLowerCase ''Theme'' = ''theme''"
    by code_simp+
  have unknown: "toLowerCase (first_token ''nonexistent 1'') \<notin> set AVAILABLE_COMMANDS"
    by code_simp
  note reg = isValidCommand_registry
  from reg in_skills have "isValidCommand ''skills''" by blast
  moreover from reg in_skills have "isValidCommand (''skills'' @ '' '' @ ''frontend'')" by blast
  moreover from reg in_theme up(2) have "isValidCommand ''Theme''" by blast
  moreover from reg in_help up(1) have "isValidCommand (''HELP'' @ '' '' @ ''me'')" by blast
  moreover from reg unknown have "\<not> isValidCommand ''nonexistent 1''" by blast
  ultimately show ?thesis by simp
qed



section \<open>Suggestions\<close>

lemma startsWith_toLowerCase:
  "startsWith (toLowerCase name) (toLowerCase p) \<longleftrightarrow> case_insensitive_prefix p name"
proof -
  have "prefix xs ys \<longleftrightarrow> take (length xs) ys = xs" for xs ys :: string
    by (metis append_eq_conv_conj prefix_def append_take_drop_id)
  then show ?thesis
    by (simp add: startsWith_def case_insensitive_prefix_def toLowerCase_def take_map)
qed

text \<open>
  Claim C8. With an absent or empty partial, \<open>getCommandSuggestions\<close> returns the whole
  registry in declaration order; with a non-empty partial it returns exactly the
  registered names that have the partial as a case-insensitive prefix, in registry order:
  \<open>he\<close> gives \<open>[help]\<close>, \<open>xyz\<close> gives nothing, \<open>HE\<close> gives a list with \<open>help\<close>.
\<close>

theorem getCommandSuggestions_prefix:
  "getCommandSuggestions None = AVAILABLE_COMMANDS \<and>
   getCommandSuggestions (Some []) = AVAILABLE_COMMANDS \<and>
   (\<forall>p. p \<noteq> [] \<longrightarrow>
      getCommandSuggestions (Some p) = filter (case_insensitive_prefix p) AVAILABLE_COMMANDS) \<and>
   getCommandSuggestions (Some ''he'') = [''help''] \<and>
   getCommandSuggestions (Some ''xyz'') = [] \<and>
   ''help'' \<in> set (getCommandSuggestions (Some ''HE''))"
proof (intro conjI allI impI)
  show "getCommandSuggestions None = AVAILABLE_COMMANDS"
    and "getCommandSuggestions (Some []) = AVAILABLE_COMMANDS"
    by (simp_all add: getCommandSuggestions_def)
  show "getCommandSuggestions (Some p) = filter (case_insensitive_prefix p) AVAILABLE_COMMANDS"
    if "p \<noteq> []" for p
    using that by (simp add: getCommandSuggestions_def startsWith_toLowerCase cong: filter_cong)
  show "getCommandSuggestions (Some ''he'') = [''help'']"
    by code_simp
  show "getCommandSuggestions (Some ''xyz'') = []"
    by code_simp
  show "''help'' \<in> set (getCommandSuggestions (Some ''HE''))"
    by code_simp
qed

theorem getCommandSuggestions_prefix_witness:
  "''S'' \<noteq> [] \<and> getCommandSuggestions (Some ''S'') = [''summary'', ''skills'']"
proof -
  have ne: "''S'' \<noteq> []" by simp
  have "filter (case_insensitive_prefix ''S'') AVAILABLE_COMMANDS = [''summary'', ''skills'']"
    by code_simp
  with getCommandSuggestions_prefix ne show ?thesis by simp
qed


section \<open>Execution: the single-flight guard and the finalize step\<close>

lemma changeTheme_frame:
  "changeTheme env st t = (st', r) \<Longrightarrow>
     executionState st' = executionState st \<and> currentCommand st' = currentCommand st \<and>
     commandHistory st' = commandHistory st"
  by (auto simp: changeTheme_def split: if_splits)

lemma executeThemeCommand_frame:
  "executeThemeCommand env st args = (st', r) \<Longrightarrow>
     executionState st' = executionState st \<and> currentCommand st' = currentCommand st \<and>
     commandHistory st' = commandHistory st"
  by (auto simp: executeThemeCommand_def Let_def
      split: list.splits if_splits prod.splits sum.splits dest: changeTheme_frame)

lemma generateResponseFromAssets_frame:
  "generateResponseFromAssets env st cmd args = (st', r) \<Longrightarrow>
     executionState st' = executionState st \<and> currentCommand st' = currentCommand st \<and>
     commandHistory st' = commandHistory st"
  unfolding generateResponseFromAssets_def
  by (simp split: if_splits add: executeThemeCommand_frame)

lemma executeOfflineCommand_frame:
  "executeOfflineCommand env st command = (st', r) \<Longrightarrow>
     executionState st' = executionState st \<and> currentCommand st' = currentCommand st \<and>
     commandHistory st' = commandHistory st"
  unfolding executeOfflineCommand_def Let_def
  by (auto split: prod.splits dest: generateResponseFromAssets_frame)

lemma executeCommand_accepted:
  assumes "executeCommand env st rawText sessionId = (st1, Inr p)"
  shows "\<not> isProcessing st" and "isValidCommand (toLowerCase (trim rawText))"
    and "trimmedCommand p = toLowerCase (trim rawText)"
    and "executionState st1 = PROCESSING"
    and "currentCommand st1 = Some (toLowerCase (trim rawText))"
    and "commandHistory st1 = commandHistory st"
  using assms
  by (auto simp: executeCommand_def Let_def setExecutionState_def currentCommandNext_def
      split: if_splits prod.splits dest!: executeOfflineCommand_frame)

lemma executeCommand_accepts:
  assumes "\<not> isProcessing st" and "isValidCommand (toLowerCase (trim rawText))"
  shows "\<exists>st1 p. executeCommand env st rawText sessionId = (st1, Inr p)"
  using assms by (simp add: executeCommand_def Let_def split: prod.splits)


text \<open>
  Claim C1. While the execution state is \<open>PROCESSING\<close>, \<open>executeCommand\<close> returns the
  failing observable of the concurrent-execution error and no pending work; the services
  (execution state, current command, history, log of emissions) are unchanged, so the
  command in flight completes exactly as it would have without the rejected call.
\<close>

theorem executeCommand_single_flight:
  assumes "isProcessing st"
  shows "executeCommand env st rawText sessionId =
           (st, Inl (Error ''Another command is currently processing'')) \<and>
         (\<forall>p. subscribe (fst (executeCommand env st rawText sessionId)) p = subscribe st p)"
  using assms by (simp add: executeCommand_def)

theorem executeCommand_single_flight_witness:
  "isProcessing (initial_services\<lparr>executionState := PROCESSING, currentCommand := Some ''help''\<rparr>) \<and>
   executeCommand example_env
     (initial_services\<lparr>executionState := PROCESSING, currentCommand := Some ''help''\<rparr>)
     ''summary'' ''session-1'' =
   (initial_services\<lparr>executionState := PROCESSING, currentCommand := Some ''help''\<rparr>,
    Inl (Error ''Another command is currently processing''))"
proof -
  have busy: "isProcessing (initial_services\<lparr>executionState := PROCESSING, currentCommand := Some ''help''\<rparr>)"
    by (simp add: isProcessing_def)
  from executeCommand_single_flight [OF busy, of example_env "''summary''" "''session-1''"] busy
  show ?thesis by simp
qed

lemma finalize_effects:
  "executionState (finalize st cmd) = IDLE \<and>
   currentCommand (finalize st cmd) = None \<and>
   currentTheme (finalize st cmd) = currentTheme st \<and>
   commandHistory (finalize st cmd) =
     (if commandHistory st \<noteq> [] \<and> last (commandHistory st) = cmd then commandHistory st
      else if length (commandHistory st) \<ge> 50 then tl (commandHistory st @ [cmd])
      else commandHistory st @ [cmd]) \<and>
   emitted (finalize st cmd) =
     emitted st @ [StateNext IDLE, CurrentNext None] @
     (if commandHistory st \<noteq> [] \<and> last (commandHistory st) = cmd then []
      else [HistoryNext (commandHistory (finalize st cmd))])"
  by (simp add: finalize_def addToHistory_def commandHistoryNext_def currentCommandNext_def
      setExecutionState_def Let_def)

text \<open>
  Claim C2. A submission that passes validation enters \<open>PROCESSING\<close> with the normalized
  command as current command. When its observable terminates, with a value or with an
  error, the subscriber gets that outcome and the finalize callback has run: the emissions
  are \<open>IDLE\<close>, then \<open>null\<close> for the current command, then the new history, in this order (no
  history emission when the command equals the last entry, and the oldest entry dropped
  beyond 50).
\<close>

theorem finalize_on_every_completion:
  assumes "executeCommand env st rawText sessionId = (st1, Inr p)"
  shows "executionState st1 = PROCESSING \<and>
         currentCommand st1 = Some (toLowerCase (trim rawText)) \<and>
         (\<forall>st2 outcome.
            let cmd = toLowerCase (trim rawText);
                h = commandHistory st2;
                st3 = fst (subscribe st2 (p\<lparr>source := outcome\<rparr>))
            in snd (subscribe st2 (p\<lparr>source := outcome\<rparr>)) = outcome \<and>
               executionState st3 = IDLE \<and> currentCommand st3 = None \<and>
               commandHistory st3 =
                 (if h \<noteq> [] \<and> last h = cmd then h
                  else if length h \<ge> 50 then tl (h @ [cmd]) else h @ [cmd]) \<and>
               emitted st3 =
                 emitted st2 @ [StateNext IDLE, CurrentNext None] @
                 (if h \<noteq> [] \<and> last h = cmd then [] else [HistoryNext (commandHistory st3)]))"
proof -
  note acc = executeCommand_accepted [OF assms]
  show ?thesis
    unfolding Let_def subscribe_def fst_conv snd_conv
    using acc(3,4,5) finalize_effects by simp
qed


theorem finalize_on_every_completion_witness:
  "executeCommand example_env initial_services ''  Help '' ''session-1'' =
     (initial_services\<lparr>executionState := PROCESSING, currentCommand := Some ''help'',
        emitted := [StateNext PROCESSING, CurrentNext (Some ''help'')]\<rparr>,
      Inr \<lparr>source = Inr \<lparr>data_output = plain (Text ''Available Commands'') ''text'' ''cyan'',
                            nextSuggestions = [''summary'', ''aboutme'', ''skills'', ''experience'']\<rparr>,
           trimmedCommand = ''help''\<rparr>) \<and>
   fst (subscribe
          (initial_services\<lparr>executionState := PROCESSING, currentCommand := Some ''help'',
             emitted := [StateNext PROCESSING, CurrentNext (Some ''help'')]\<rparr>)
          \<lparr>source = Inl (Error ''boom''), trimmedCommand = ''help''\<rparr>) =
     initial_services\<lparr>commandHistory := [''help''],
        emitted := [StateNext PROCESSING, CurrentNext (Some ''help''), StateNext IDLE,
                    CurrentNext None, HistoryNext [''help'']]\<rparr>"
proof -
  let ?st1 = "initial_services\<lparr>executionState := PROCESSING, currentCommand := Some ''help'',
        emitted := [StateNext PROCESSING, CurrentNext (Some ''help'')]\<rparr>"
  let ?p = "\<lparr>source = Inr \<lparr>data_output = plain (Text ''Available Commands'') ''text'' ''cyan'',
                            nextSuggestions = [''summary'', ''aboutme'', ''skills'', ''experience'']\<rparr>,
           trimmedCommand = ''help''\<rparr>"
  have run: "executeCommand example_env initial_services ''  Help '' ''session-1'' = (?st1, Inr ?p)"
    by code_simp
  have cmd: "toLowerCase (trim ''  Help '') = ''help''"
    by code_simp
  from finalize_on_every_completion [OF run] cmd
  have "let st3 = fst (subscribe ?st1 (?p\<lparr>source := Inl (Error ''boom'')\<rparr>))
        in executionState st3 = IDLE \<and> currentCommand st3 = None \<and>
           commandHistory st3 = [''help''] \<and>
           emitted st3 = emitted ?st1 @ [StateNext IDLE, CurrentNext None, HistoryNext [''help'']]"
    by (simp add: Let_def initial_services_def)
  moreover have "currentTheme (fst (subscribe ?st1 (?p\<lparr>source := Inl (Error ''boom'')\<rparr>))) = ''dark''"
    by (simp add: subscribe_def finalize_effects initial_services_def)
  ultimately show ?thesis
    using run by (simp add: Let_def initial_services_def)
qed

section \<open>Leading whitespace\<close>

lemma trim_leading_space: "trim ('' '' @ s) = trim s"
  by (simp add: trim_def)

text \<open>
  Claim C10. For every registered name \<open>c\<close>, the string \<open>" " + c\<close> is rejected by
  \<open>isValidCommand\<close>, because its first piece after \<open>split(' ')\<close> is empty; yet
  \<open>executeCommand\<close> accepts it whenever no command is processing, because it validates the
  trimmed, lower-cased text, which is \<open>c\<close>.
\<close>

theorem leading_space_validate_disagrees:
  "\<forall>c \<in> set AVAILABLE_COMMANDS.
     hd (split_space ('' '' @ c)) = [] \<and> \<not> isValidCommand ('' '' @ c) \<and>
     toLowerCase (trim ('' '' @ c)) = c \<and>
     (\<forall>env st sessionId. \<not> isProcessing st \<longrightarrow>
        (\<exists>st1 p. executeCommand env st ('' '' @ c) sessionId = (st1, Inr p) \<and>
                  trimmedCommand p = c \<and> executionState st1 = PROCESSING))"
proof (intro ballI conjI allI impI)
  fix c assume c: "c \<in> set AVAILABLE_COMMANDS"
  show "hd (split_space ('' '' @ c)) = []"
    by simp
  have "[] \<notin> set AVAILABLE_COMMANDS"
    by (simp add: AVAILABLE_COMMANDS_def)
  then show "\<not> isValidCommand ('' '' @ c)"
    by (simp add: isValidCommand_def toLowerCase_def)
  show norm: "toLowerCase (trim ('' '' @ c)) = c"
    using c by (simp only: trim_leading_space AVAILABLE_COMMANDS_trim AVAILABLE_COMMANDS_lower)
  fix env st sessionId
  assume idle: "\<not> isProcessing st"
  from c have "isValidCommand c"
    using isValidCommand_any_case(1) [of c] by (simp add: AVAILABLE_COMMANDS_lower)
  with norm have "isValidCommand (toLowerCase (trim ('' '' @ c)))"
    by simp
  from executeCommand_accepts [OF idle this]
  obtain st1 p where run: "executeCommand env st ('' '' @ c) sessionId = (st1, Inr p)"
    by blast
  from executeCommand_accepted(3,4) [OF run] norm run
  show "\<exists>st1 p. executeCommand env st ('' '' @ c) sessionId = (st1, Inr p) \<and>
                  trimmedCommand p = c \<and> executionState st1 = PROCESSING"
    by simp
qed

theorem leading_space_validate_disagrees_witness:
  "''help'' \<in> set AVAILABLE_COMMANDS \<and> \<not> isProcessing initial_services \<and>
   \<not> isValidCommand '' help'' \<and>
   (\<exists>st1 p. executeCommand example_env initial_services '' help'' ''session-1'' = (st1, Inr p) \<and>
             trimmedCommand p = ''help'')"
proof -
  have reg: "''help'' \<in> set AVAILABLE_COMMANDS"
    by (simp add: AVAILABLE_COMMANDS_def)
  have idle: "\<not> isProcessing initial_services"
    by (simp add: isProcessing_def initial_services_def)
  from leading_space_validate_disagrees reg
  have "\<not> isValidCommand ('' '' @ ''help'')"
    and "\<forall>env st sessionId. \<not> isProcessing st \<longrightarrow>
        (\<exists>st1 p. executeCommand env st ('' '' @ ''help'') sessionId = (st1, Inr p) \<and>
                  trimmedCommand p = ''help'' \<and> executionState st1 = PROCESSING)"
    by blast+
  with reg idle show ?thesis
    by (simp del: split_paired_Ex) blast
qed



section \<open>History: bound and consecutive duplicates\<close>

lemma bounded_append:
  fixes h :: "'a list" and c :: 'a
  assumes "length h \<le> 50" and "distinct_adj h"
  defines "h' \<equiv> (if h \<noteq> [] \<and> last h = c then h
                  else if length h \<ge> 50 then tl h @ [c] else h @ [c])"
  shows "length h' \<le> 50" and "distinct_adj h'"
proof -
  show "length h' \<le> 50"
    using assms(1) by (simp add: h'_def)
  show "distinct_adj h'"
  proof (cases "h \<noteq> [] \<and> last h = c")
    case True
    with assms(2) show ?thesis by (simp add: h'_def)
  next
    case False
    then have full: "distinct_adj (h @ [c])"
      using assms(2) by (auto simp: distinct_adj_append_iff)
    show ?thesis
    proof (cases h)
      case Nil
      then show ?thesis by (simp add: h'_def)
    next
      case (Cons x xs)
      with full have "distinct_adj (xs @ [c])"
        by (simp add: distinct_adj_Cons split: if_splits) 
      with full False Cons show ?thesis
        by (simp add: h'_def)
    qed
  qed
qed

lemma addToHistory_commandHistory:
  "commandHistory (addToHistory st c) =
     (if commandHistory st \<noteq> [] \<and> last (commandHistory st) = c then commandHistory st
      else if length (commandHistory st) \<ge> 50 then tl (commandHistory st) @ [c]
      else commandHistory st @ [c])"
  by (cases "commandHistory st") (simp_all add: addToHistory_def commandHistoryNext_def Let_def)

lemma addCommand_history:
  "history (addCommand h c) =
     (if trim c = [] then history h
      else if history h \<noteq> [] \<and> last (history h) = trim c then history h
      else if length (history h) \<ge> 50 then tl (history h) @ [trim c]
      else history h @ [trim c])"
  by (cases "history h") (simp_all add: addCommand_def maxHistorySize_def Let_def)

lemma addToHistory_invariant:
  "length (commandHistory st) \<le> 50 \<and> distinct_adj (commandHistory st) \<Longrightarrow>
   length (commandHistory (foldl addToHistory st cmds)) \<le> 50 \<and>
   distinct_adj (commandHistory (foldl addToHistory st cmds))"
proof (induction cmds rule: rev_induct)
  case Nil
  then show ?case by simp
next
  case (snoc c cmds)
  then show ?case
    using bounded_append [of "commandHistory (foldl addToHistory st cmds)" c]
    by (simp add: addToHistory_commandHistory)
qed

lemma addCommand_invariant:
  "length (history h) \<le> 50 \<and> distinct_adj (history h) \<Longrightarrow>
   length (history (foldl addCommand h cmds)) \<le> 50 \<and>
   distinct_adj (history (foldl addCommand h cmds))"
proof (induction cmds rule: rev_induct)
  case Nil
  then show ?case by simp
next
  case (snoc c cmds)
  then show ?case
    using bounded_append [of "history (foldl addCommand h cmds)" "trim c"]
    by (simp add: addCommand_history)
qed

lemma addToHistory_noop:
  "commandHistory st \<noteq> [] \<Longrightarrow> last (commandHistory st) = c \<Longrightarrow> addToHistory st c = st"
  by (simp add: addToHistory_def)

lemma addToHistory_last:
  "commandHistory (addToHistory st c) \<noteq> [] \<and> last (commandHistory (addToHistory st c)) = c"
  by (simp add: addToHistory_commandHistory)

lemma addToHistory_twice: "addToHistory (addToHistory st c) c = addToHistory st c"
  using addToHistory_last [of st c] by (simp add: addToHistory_noop)

lemma addCommand_noop:
  "trim c \<noteq> [] \<Longrightarrow> history h \<noteq> [] \<Longrightarrow> last (history h) = trim c \<Longrightarrow>
   addCommand h c = h\<lparr>currentIndex := int (length (history h)), tempCommand := []\<rparr>"
  by (simp add: addCommand_def)

lemma addCommand_cursor:
  "trim c \<noteq> [] \<Longrightarrow>
   currentIndex (addCommand h c) = int (length (history (addCommand h c))) \<and>
   tempCommand (addCommand h c) = []"
  by (simp add: addCommand_def Let_def)

lemma addCommand_last:
  "trim c \<noteq> [] \<Longrightarrow>
   history (addCommand h c) \<noteq> [] \<and> last (history (addCommand h c)) = trim c"
  by (simp add: addCommand_history)

lemma addCommand_twice: "addCommand (addCommand h c) c = addCommand h c"
proof (cases "trim c = []")
  case True
  then show ?thesis by (simp add: addCommand_def)
next
  case False
  from addCommand_last [OF False, of h] addCommand_cursor [OF False, of h] show ?thesis
    by (simp add: addCommand_noop [OF False])
qed

text \<open>
  Claim C4. Both histories (\<open>CommandService.addToHistory\<close> and
  \<open>CommandHistoryService.addCommand\<close>) keep, through any sequence of appends, at most 50
  entries and no two equal neighbours. Appending the command that was appended last
  changes nothing; appending the last entry of the list again leaves the list as it is;
  appending a different command to a list of 50 drops the oldest entry.
  (\<open>addCommand\<close> stores the trimmed command and ignores a blank one.)
\<close>

theorem history_bounded_without_consecutive_duplicates:
  "(\<forall>st cmds. length (commandHistory st) \<le> 50 \<and> distinct_adj (commandHistory st) \<longrightarrow>
      length (commandHistory (foldl addToHistory st cmds)) \<le> 50 \<and>
      distinct_adj (commandHistory (foldl addToHistory st cmds))) \<and>
   (\<forall>st c. addToHistory (addToHistory st c) c = addToHistory st c) \<and>
   (\<forall>st c. commandHistory st \<noteq> [] \<and> last (commandHistory st) = c \<longrightarrow> addToHistory st c = st) \<and>
   (\<forall>st c. length (commandHistory st) = 50 \<and> last (commandHistory st) \<noteq> c \<longrightarrow>
      commandHistory (addToHistory st c) = tl (commandHistory st) @ [c]) \<and>
   (\<forall>h cmds. length (history h) \<le> 50 \<and> distinct_adj (history h) \<longrightarrow>
      length (history (foldl addCommand h cmds)) \<le> 50 \<and>
      distinct_adj (history (foldl addCommand h cmds))) \<and>
   (\<forall>h c. addCommand (addCommand h c) c = addCommand h c) \<and>
   (\<forall>h c. history h \<noteq> [] \<and> last (history h) = trim c \<longrightarrow>
      history (addCommand h c) = history h) \<and>
   (\<forall>h c. length (history h) = 50 \<and> trim c \<noteq> [] \<and> last (history h) \<noteq> trim c \<longrightarrow>
      history (addCommand h c) = tl (history h) @ [trim c])"
proof (intro conjI allI impI)
  show "length (commandHistory (foldl addToHistory st cmds)) \<le> 50"
    and "distinct_adj (commandHistory (foldl addToHistory st cmds))"
    if "length (commandHistory st) \<le> 50 \<and> distinct_adj (commandHistory st)" for st cmds
    using addToHistory_invariant [OF that] by simp_all
  show "addToHistory (addToHistory st c) c = addToHistory st c" for st c
    by (rule addToHistory_twice)
  show "addToHistory st c = st"
    if "commandHistory st \<noteq> [] \<and> last (commandHistory st) = c" for st c
    using that by (simp add: addToHistory_noop)
  show "commandHistory (addToHistory st c) = tl (commandHistory st) @ [c]"
    if "length (commandHistory st) = 50 \<and> last (commandHistory st) \<noteq> c" for st c
    using that by (simp add: addToHistory_commandHistory)
  show "length (history (foldl addCommand h cmds)) \<le> 50"
    and "distinct_adj (history (foldl addCommand h cmds))"
    if "length (history h) \<le> 50 \<and> distinct_adj (history h)" for h cmds
    using addCommand_invariant [OF that] by simp_all
  show "addCommand (addCommand h c) c = addCommand h c" for h c
    by (rule addCommand_twice)
  show "history (addCommand h c) = history h"
    if "history h \<noteq> [] \<and> last (history h) = trim c" for h c
    using that by (simp add: addCommand_history)
  show "history (addCommand h c) = tl (history h) @ [trim c]"
    if "length (history h) = 50 \<and> trim c \<noteq> [] \<and> last (history h) \<noteq> trim c" for h c
    using that by (simp add: addCommand_history)
qed


theorem history_bounded_without_consecutive_duplicates_witness:
  "length (commandHistory (foldl addToHistory initial_services [''help'', ''help'', ''skills''])) \<le> 50 \<and>
   distinct_adj (commandHistory (foldl addToHistory initial_services [''help'', ''help'', ''skills''])) \<and>
   addToHistory (initial_services\<lparr>commandHistory := [''help'']\<rparr>) ''help'' =
     initial_services\<lparr>commandHistory := [''help'']\<rparr> \<and>
   commandHistory (addToHistory (initial_services\<lparr>commandHistory := fifty_commands\<rparr>) ''theme'') =
     tl fifty_commands @ [''theme''] \<and>
   length (history (foldl addCommand new_history_service [''help'', '' help '', ''skills''])) \<le> 50 \<and>
   distinct_adj (history (foldl addCommand new_history_service [''help'', '' help '', ''skills''])) \<and>
   history (addCommand (new_history_service\<lparr>history := [''help'']\<rparr>) '' help '') = [''help''] \<and>
   history (addCommand (new_history_service\<lparr>history := fifty_commands\<rparr>) ''theme '') =
     tl fifty_commands @ [''theme'']"
proof -
  note T = history_bounded_without_consecutive_duplicates
  have e1: "length (commandHistory initial_services) \<le> 50 \<and>
      distinct_adj (commandHistory initial_services)"
    by (simp add: initial_services_def)
  have e2: "commandHistory (initial_services\<lparr>commandHistory := [''help'']\<rparr>) \<noteq> [] \<and>
      last (commandHistory (initial_services\<lparr>commandHistory := [''help'']\<rparr>)) = ''help''"
    by simp
  have len: "length fifty_commands = 50" and lst: "last fifty_commands = ''skills''"
    by code_simp+
  have e3: "length (commandHistory (initial_services\<lparr>commandHistory := fifty_commands\<rparr>)) = 50 \<and>
      last (commandHistory (initial_services\<lparr>commandHistory := fifty_commands\<rparr>)) \<noteq> ''theme''"
    using len lst by simp
  have e4: "length (history new_history_service) \<le> 50 \<and> distinct_adj (history new_history_service)"
    by (simp add: new_history_service_def)
  have t1: "trim '' help '' = ''help''" and t2: "trim ''theme '' = ''theme''"
    by code_simp+
  have e5: "history (new_history_service\<lparr>history := [''help'']\<rparr>) \<noteq> [] \<and>
      last (history (new_history_service\<lparr>history := [''help'']\<rparr>)) = trim '' help ''"
    using t1 by simp
  have e6: "length (history (new_history_service\<lparr>history := fifty_commands\<rparr>)) = 50 \<and>
      trim ''theme '' \<noteq> [] \<and>
      last (history (new_history_service\<lparr>history := fifty_commands\<rparr>)) \<noteq> trim ''theme ''"
    using len lst t2 by simp
  from T e1 have "length (commandHistory (foldl addToHistory initial_services [''help'', ''help'', ''skills''])) \<le> 50 \<and>
      distinct_adj (commandHistory (foldl addToHistory initial_services [''help'', ''help'', ''skills'']))"
    by blast
  moreover from T e2 have "addToHistory (initial_services\<lparr>commandHistory := [''help'']\<rparr>) ''help'' =
      initial_services\<lparr>commandHistory := [''help'']\<rparr>"
    by blast
  moreover from T e3 have "commandHistory (addToHistory (initial_services\<lparr>commandHistory := fifty_commands\<rparr>) ''theme'') =
      tl (commandHistory (initial_services\<lparr>commandHistory := fifty_commands\<rparr>)) @ [''theme'']"
    by blast
  moreover from T e4 have "length (history (foldl addCommand new_history_service [''help'', '' help '', ''skills''])) \<le> 50 \<and>
      distinct_adj (history (foldl addCommand new_history_service [''help'', '' help '', ''skills'']))"
    by blast
  moreover from T e5 have "history (addCommand (new_history_service\<lparr>history := [''help'']\<rparr>) '' help '') =
      history (new_history_service\<lparr>history := [''help'']\<rparr>)"
    by blast
  moreover from T e6 have "history (addCommand (new_history_service\<lparr>history := fifty_commands\<rparr>) ''theme '') =
      tl (history (new_history_service\<lparr>history := fifty_commands\<rparr>)) @ [trim ''theme '']"
    by blast
  ultimately show ?thesis
    using t2 by simp
qed


section \<open>History: cursor navigation\<close>

lemma previous_calls_add:
  "previous_calls (a + b) h =
     (let (h1, r1) = previous_calls a h; (h2, r2) = previous_calls b h1 in (h2, r1 @ r2))"
  by (induction a arbitrary: h) (simp_all add: Let_def split: prod.splits)

lemma next_calls_add:
  "next_calls (a + b) h =
     (let (h1, r1) = next_calls a h; (h2, r2) = next_calls b h1 in (h2, r1 @ r2))"
  by (induction a arbitrary: h) (simp_all add: Let_def split: prod.splits)

lemma previous_calls_segment:
  "history h = ws @ xs @ ys \<Longrightarrow> currentIndex h = int (length ws + length xs) \<Longrightarrow>
   previous_calls (length xs) h = (h\<lparr>currentIndex := int (length ws)\<rparr>, map Some (rev xs))"
proof (induction xs arbitrary: h ys rule: rev_induct)
  case Nil
  then show ?case by simp
next
  case (snoc x xs)
  let ?h1 = "h\<lparr>currentIndex := int (length ws + length xs)\<rparr>"
  have "history h ! (length ws + length xs) = x"
    using snoc.prems(1) by (simp add: nth_append)
  then have first: "getPreviousCommand h = (?h1, Some x)"
    using snoc.prems by (simp add: getPreviousCommand_def Let_def nat_int_add)
  have "previous_calls (length xs) ?h1 = (?h1\<lparr>currentIndex := int (length ws)\<rparr>, map Some (rev xs))"
    using snoc.prems(1) by (intro snoc.IH [where ys = "x # ys"]) simp_all
  with first show ?case by simp
qed

lemma previous_calls_at_start:
  "currentIndex h = 0 \<Longrightarrow> previous_calls m h = (h, replicate m None)"
  by (induction m) (simp_all add: getPreviousCommand_def)

lemma next_calls_segment:
  "history h = ws @ xs @ ys \<Longrightarrow> ws \<noteq> [] \<Longrightarrow> currentIndex h = int (length ws) - 1 \<Longrightarrow>
   next_calls (length xs) h =
     (h\<lparr>currentIndex := int (length ws) - 1 + int (length xs)\<rparr>, map Some xs)"
proof (induction xs arbitrary: h ws)
  case Nil
  then show ?case by simp
next
  case (Cons x xs)
  let ?h1 = "h\<lparr>currentIndex := int (length ws)\<rparr>"
  have "history h ! length ws = x"
    using Cons.prems(1) by (simp add: nth_append)
  then have first: "getNextCommand h = (?h1, Some x)"
    using Cons.prems by (simp add: getNextCommand_def Let_def nat_int_add)
  have "next_calls (length xs) ?h1 =
      (?h1\<lparr>currentIndex := int (length (ws @ [x])) - 1 + int (length xs)\<rparr>, map Some xs)"
    using Cons.prems(1) by (intro Cons.IH [where ws = "ws @ [x]"]) simp_all
  with first show ?case by simp
qed

lemma getNextCommand_last_entry:
  "history h \<noteq> [] \<Longrightarrow> currentIndex h = int (length (history h)) - 1 \<Longrightarrow>
   getNextCommand h = (h\<lparr>currentIndex := int (length (history h))\<rparr>, Some (tempCommand h))"
  by (simp add: getNextCommand_def)

lemma getNextCommand_live:
  "currentIndex h = int (length (history h)) \<Longrightarrow> getNextCommand h = (h, None)"
  by (simp add: getNextCommand_def)


lemma getPreviousCommand_cursor:
  "currentIndex (fst (getPreviousCommand g)) =
     (if history g \<noteq> [] \<and> 0 < currentIndex g then currentIndex g - 1 else currentIndex g)"
  by (simp add: getPreviousCommand_def Let_def)

lemma getNextCommand_cursor:
  "0 \<le> currentIndex g \<Longrightarrow>
   currentIndex (fst (getNextCommand g)) =
     (if currentIndex g < int (length (history g)) then currentIndex g + 1 else currentIndex g)"
  by (auto simp: getNextCommand_def Let_def)

text \<open>
  Claim C5. From the live-input position (cursor = length of the history), \<open>k\<close> calls of
  \<open>getPreviousCommand\<close> return the last \<open>k\<close> entries, newest first, and leave the cursor at
  \<open>length - k\<close>; every further call beyond the earliest entry returns nothing and leaves
  the cursor at 0. From the earliest entry, calls of \<open>getNextCommand\<close> return the later
  entries in order, the call that brings the cursor to the length returns the saved temp
  input, and a call at the live-input position returns nothing. \<open>getPreviousCommand\<close>
  decrements the cursor exactly when it is positive (and the history non-empty);
  \<open>getNextCommand\<close>, from a cursor that is not negative, increments it exactly when it is
  below the length.
\<close>

theorem history_cursor_navigation:
  assumes live: "currentIndex h = int (length (history h))"
  shows "(\<forall>k \<le> length (history h).
            previous_calls k h =
              (h\<lparr>currentIndex := int (length (history h) - k)\<rparr>,
               map Some (take k (rev (history h))))) \<and>
         (\<forall>m. previous_calls (length (history h) + m) h =
              (h\<lparr>currentIndex := 0\<rparr>, map Some (rev (history h)) @ replicate m None)) \<and>
         (\<forall>k < length (history h).
            next_calls k (h\<lparr>currentIndex := 0\<rparr>) =
              (h\<lparr>currentIndex := int k\<rparr>, map Some (take k (tl (history h))))) \<and>
         (history h \<noteq> [] \<longrightarrow>
            next_calls (length (history h)) (h\<lparr>currentIndex := 0\<rparr>) =
              (h, map Some (tl (history h)) @ [Some (tempCommand h)])) \<and>
         getNextCommand h = (h, None) \<and>
         (\<forall>g. currentIndex (fst (getPreviousCommand g)) =
              (if history g \<noteq> [] \<and> 0 < currentIndex g then currentIndex g - 1
               else currentIndex g)) \<and>
         (\<forall>g. 0 \<le> currentIndex g \<longrightarrow>
              currentIndex (fst (getNextCommand g)) =
                (if currentIndex g < int (length (history g)) then currentIndex g + 1
                 else currentIndex g))"
proof -
  let ?n = "length (history h)"
  have up: "previous_calls k h =
      (h\<lparr>currentIndex := int (?n - k)\<rparr>, map Some (take k (rev (history h))))"
    if "k \<le> ?n" for k
  proof -
    have "previous_calls (length (drop (?n - k) (history h))) h =
        (h\<lparr>currentIndex := int (length (take (?n - k) (history h)))\<rparr>,
         map Some (rev (drop (?n - k) (history h))))"
      using live that by (intro previous_calls_segment [where ys = "[]"]) simp_all
    with that show ?thesis
      by (simp add: take_rev)
  qed
  have up_all: "previous_calls (?n + m) h =
      (h\<lparr>currentIndex := 0\<rparr>, map Some (rev (history h)) @ replicate m None)" for m
    using up [of ?n] by (simp add: previous_calls_add previous_calls_at_start)
  have forth: "next_calls k (h\<lparr>currentIndex := 0\<rparr>) =
      (h\<lparr>currentIndex := int k\<rparr>, map Some (take k (tl (history h))))"
    if "k < ?n" for k
  proof -
    from that obtain x t where xt: "history h = x # t"
      by (cases "history h") auto
    with that have k: "k \<le> length t" by simp
    have "next_calls (length (take k t)) (h\<lparr>currentIndex := 0\<rparr>) =
        (h\<lparr>currentIndex := 0, currentIndex := int (length [x]) - 1 + int (length (take k t))\<rparr>,
         map Some (take k t))"
      using xt by (intro next_calls_segment [where ys = "drop k t"]) simp_all
    with k xt show ?thesis
      by (simp add: min_absorb2)
  qed
  have round_trip: "next_calls ?n (h\<lparr>currentIndex := 0\<rparr>) =
      (h, map Some (tl (history h)) @ [Some (tempCommand h)])"
    if "history h \<noteq> []"
  proof -
    from that have n: "?n = (?n - 1) + 1" and less: "?n - 1 < ?n"
      by simp_all
    from that have "int (?n - 1) = int ?n - 1"
      by (cases "history h") simp_all
    then have "getNextCommand (h\<lparr>currentIndex := int (?n - 1)\<rparr>) =
        (h\<lparr>currentIndex := int ?n\<rparr>, Some (tempCommand h))"
      using that getNextCommand_last_entry [of "h\<lparr>currentIndex := int (?n - 1)\<rparr>"]
      by simp
    moreover have "h\<lparr>currentIndex := int ?n\<rparr> = h"
      using live by simp
    ultimately have "next_calls (?n - 1 + 1) (h\<lparr>currentIndex := 0\<rparr>) =
        (h, map Some (take (?n - 1) (tl (history h))) @ [Some (tempCommand h)])"
      unfolding next_calls_add using forth [OF less] by simp
    with n show ?thesis by simp
  qed
  show ?thesis
    using up up_all forth round_trip getNextCommand_live [OF live]
      getPreviousCommand_cursor getNextCommand_cursor
    by (intro conjI allI impI) blast+
qed


theorem history_cursor_navigation_witness:
  "currentIndex example_history = int (length (history example_history)) \<and>
   previous_calls 2 example_history =
     (example_history\<lparr>currentIndex := 1\<rparr>, [Some ''theme'', Some ''skills'']) \<and>
   previous_calls 5 example_history =
     (example_history\<lparr>currentIndex := 0\<rparr>,
      [Some ''theme'', Some ''skills'', Some ''help'', None, None]) \<and>
   next_calls 2 (example_history\<lparr>currentIndex := 0\<rparr>) =
     (example_history\<lparr>currentIndex := 2\<rparr>, [Some ''skills'', Some ''theme'']) \<and>
   next_calls 3 (example_history\<lparr>currentIndex := 0\<rparr>) =
     (example_history, [Some ''skills'', Some ''theme'', Some ''exp'']) \<and>
   getNextCommand example_history = (example_history, None) \<and>
   currentIndex (fst (getNextCommand (example_history\<lparr>currentIndex := 1\<rparr>))) = 2"
proof -
  have live: "currentIndex example_history = int (length (history example_history))"
    and len: "length (history example_history) = 3"
    and hist: "history example_history = [''help'', ''skills'', ''theme'']"
    and temp: "tempCommand example_history = ''exp''"
    by (simp_all add: example_history_def)
  note nav = history_cursor_navigation [OF live, unfolded len]
  have "(2::nat) \<le> 3" and "(2::nat) < 3" and "3 + 2 = (5::nat)"
    and "history example_history \<noteq> []"
    and "0 \<le> currentIndex (example_history\<lparr>currentIndex := 1\<rparr>)"
    by (simp_all add: hist)
  with nav have "previous_calls 2 example_history =
      (example_history\<lparr>currentIndex := int (3 - 2)\<rparr>,
       map Some (take 2 (rev (history example_history))))"
    and "previous_calls (3 + 2) example_history =
      (example_history\<lparr>currentIndex := 0\<rparr>,
       map Some (rev (history example_history)) @ replicate 2 None)"
    and "next_calls 2 (example_history\<lparr>currentIndex := 0\<rparr>) =
      (example_history\<lparr>currentIndex := int 2\<rparr>,
       map Some (take 2 (tl (history example_history))))"
    and "next_calls 3 (example_history\<lparr>currentIndex := 0\<rparr>) =
      (example_history, map Some (tl (history example_history)) @ [Some (tempCommand example_history)])"
    and "getNextCommand example_history = (example_history, None)"
    and "currentIndex (fst (getNextCommand (example_history\<lparr>currentIndex := 1\<rparr>))) =
      (if currentIndex (example_history\<lparr>currentIndex := 1\<rparr>)
            < int (length (history (example_history\<lparr>currentIndex := 1\<rparr>)))
       then currentIndex (example_history\<lparr>currentIndex := 1\<rparr>) + 1
       else currentIndex (example_history\<lparr>currentIndex := 1\<rparr>))"
    by blast+
  then show ?thesis
    using live by (simp add: hist temp numeral_2_eq_2 replicate_Suc)
qed



section \<open>The theme command\<close>

lemma toLowerCase_char_space: "toLowerCase_char c = CHR '' '' \<longleftrightarrow> c = CHR '' ''"
proof -
  have "toLowerCase_char c = CHR '' '' \<longleftrightarrow>
      (of_char (toLowerCase_char c) :: nat) = of_char (CHR '' '')"
    by (simp only: of_char_eq_iff)
  also have "\<dots> \<longleftrightarrow> (of_char c :: nat) = of_char (CHR '' '')"
    by (auto simp: of_char_toLowerCase_char Let_def)
  also have "\<dots> \<longleftrightarrow> c = CHR '' ''"
    by (simp only: of_char_eq_iff)
  finally show ?thesis .
qed

lemma split_space_toLowerCase:
  "split_space (toLowerCase s) = map toLowerCase (split_space s)"
proof (induction s)
  case Nil
  show ?case by (simp add: toLowerCase_def)
next
  case (Cons c s)
  show ?case
  proof (cases "c = CHR '' ''")
    case True
    then have "toLowerCase_char c = CHR '' ''"
      by (simp add: toLowerCase_char_space)
    with True Cons show ?thesis
      by (simp add: toLowerCase_def)
  next
    case False
    then have "toLowerCase_char c \<noteq> CHR '' ''"
      by (simp add: toLowerCase_char_space)
    with False Cons show ?thesis
      by (cases "split_space s") (simp_all add: toLowerCase_def)
  qed
qed

lemma normalized_pieces_lower:
  "a \<in> set (split_space (toLowerCase s)) \<Longrightarrow> toLowerCase a = a"
  by (auto simp: split_space_toLowerCase)

lemma executeThemeCommand_cases:
  "executeThemeCommand env st [] = (st, Inr (theme_list env))"
  "toLowerCase a \<notin> {''dark'', ''light''} \<Longrightarrow>
     executeThemeCommand env st (a # rest) = (st, Inr (invalid_theme (toLowerCase a)))"
  "toLowerCase a \<in> {''dark'', ''light''} \<Longrightarrow>
     fst (executeThemeCommand env st (a # rest)) = fst (changeTheme env st (toLowerCase a))"
  by (auto simp: executeThemeCommand_def Let_def
      split: prod.splits sum.splits)

lemma executeCommand_theme:
  assumes "\<not> isProcessing st"
    and "split_space (toLowerCase (trim rawText)) = ''theme'' # args"
  shows "executeCommand env st rawText sessionId =
     (let trimmed = toLowerCase (trim rawText);
          st2 = currentCommandNext (setExecutionState st PROCESSING) (Some trimmed);
          (st3, r) = executeThemeCommand env st2 args
      in (st3, Inr \<lparr>source = map_sum
                      (\<lambda>e. createCommandError ''EXECUTION_ERROR''
                             (or_else (message e) ''Command execution failed'') None)
                      (\<lambda>out. \<lparr>data_output = out,
                               nextSuggestions = [''help'', ''summary'', ''aboutme'', ''skills'']\<rparr>) r,
                    trimmedCommand = trimmed\<rparr>))"
proof -
  have "''theme'' \<in> set AVAILABLE_COMMANDS"
    by (simp add: AVAILABLE_COMMANDS_def)
  then have valid: "isValidCommand (toLowerCase (trim rawText))"
    using assms(2) by (simp add: isValidCommand_def AVAILABLE_COMMANDS_lower)
  have gen: "generateResponseFromAssets env s ''theme'' args = executeThemeCommand env s args" for s
    by (simp add: generateResponseFromAssets_def)
  have sug: "getNextSuggestions ''theme'' = [''help'', ''summary'', ''aboutme'', ''skills'']"
    by (simp add: getNextSuggestions_def)
  show ?thesis
    using assms valid
    by (simp add: executeCommand_def executeOfflineCommand_def gen sug Let_def
        split: prod.splits sum.splits)
qed


lemma join_member:
  "x \<in> set xs \<Longrightarrow> \<exists>before after. join sep xs = before @ x @ after"
proof (induction sep xs rule: join.induct)
  case (1 sep)
  then show ?case by simp
next
  case (2 sep y)
  then have "join sep [y] = [] @ x @ []" by simp
  then show ?case by blast
next
  case (3 sep y z zs)
  show ?case
  proof (cases "x = y")
    case True
    then have "join sep (y # z # zs) = [] @ x @ (sep @ join sep (z # zs))" by simp
    then show ?thesis by blast
  next
    case False
    with "3.prems" have "x \<in> set (z # zs)" by simp
    from "3.IH" [OF this] obtain b a where "join sep (z # zs) = b @ x @ a" by blast
    then have "join sep (y # z # zs) = (y @ sep @ b) @ x @ a" by simp
    then show ?thesis by blast
  qed
qed

lemma theme_list_names:
  assumes "(name, displayName) \<in> set (AVAILABLE_THEMES env)"
  shows "\<exists>before after.
           content (theme_list env) =
             Text (before @ (bullet @ '' '' @ name @ '' - '' @ displayName) @ after)"
proof -
  let ?line = "\<lambda>(name, displayName). bullet @ '' '' @ name @ '' - '' @ displayName"
  from assms have "bullet @ '' '' @ name @ '' - '' @ displayName
      \<in> set (map ?line (AVAILABLE_THEMES env))"
    by force
  from join_member [OF this, of nl] obtain b a
    where "join nl (map ?line (AVAILABLE_THEMES env)) =
             b @ (bullet @ '' '' @ name @ '' - '' @ displayName) @ a"
    by auto
  then have "content (theme_list env) =
      Text ((''Available themes:'' @ nl @ nl @ b) @
            (bullet @ '' '' @ name @ '' - '' @ displayName) @
            (a @ nl @ nl @ ''Usage: theme <name>''))"
    by (simp add: theme_list_def plain_def)
  then show ?thesis by blast
qed

text \<open>
  Claim C7. For a submitted \<open>theme\<close> command (the normalized text splits into \<open>theme\<close> and
  its arguments): with no argument the output is the blue text that lists, between its
  heading and its usage line, one line \<open>name - displayName\<close> for each of the session's
  available themes, in their order, so every theme name occurs in it; with a first
  argument other than \<open>dark\<close> and \<open>light\<close> the output is the invalid-theme text, which
  quotes the argument and has type \<open>text\<close> and colour \<open>red\<close>, and the session collaborator
  is not called: the only emissions are those of the execution state and the current
  command, and the theme is what it was, also after the finalize step; with \<open>dark\<close> or
  \<open>light\<close> the state is the one \<open>changeTheme\<close> leaves.
\<close>

theorem theme_argument_validation:
  assumes "\<not> isProcessing st"
    and "split_space (toLowerCase (trim rawText)) = ''theme'' # args"
  shows "let trimmed = toLowerCase (trim rawText);
             st2 = currentCommandNext (setExecutionState st PROCESSING) (Some trimmed);
             suggestions = [''help'', ''summary'', ''aboutme'', ''skills''];
             result = executeCommand env st rawText sessionId
         in (args = [] \<longrightarrow>
               result = (st2, Inr \<lparr>source = Inr \<lparr>data_output = theme_list env,
                                                   nextSuggestions = suggestions\<rparr>,
                                  trimmedCommand = trimmed\<rparr>) \<and>
               otype (theme_list env) = ''text'' \<and>
               map_option color (format (theme_list env)) = Some ''blue'' \<and>
               content (theme_list env) =
                 Text (''Available themes:'' @ nl @ nl @
                       join nl (map (\<lambda>(name, displayName).
                                       bullet @ '' '' @ name @ '' - '' @ displayName)
                                  (AVAILABLE_THEMES env)) @
                       nl @ nl @ ''Usage: theme <name>'') \<and>
               (\<forall>name displayName. (name, displayName) \<in> set (AVAILABLE_THEMES env) \<longrightarrow>
                  (\<exists>before after.
                     content (theme_list env) =
                       Text (before @ (bullet @ '' '' @ name @ '' - '' @ displayName) @ after)))) \<and>
            (\<forall>a rest. args = a # rest \<and> a \<notin> {''dark'', ''light''} \<longrightarrow>
               result = (st2, Inr \<lparr>source = Inr \<lparr>data_output = invalid_theme a,
                                                   nextSuggestions = suggestions\<rparr>,
                                  trimmedCommand = trimmed\<rparr>) \<and>
               otype (invalid_theme a) = ''text'' \<and>
               map_option color (format (invalid_theme a)) = Some ''red'' \<and>
               content (invalid_theme a) =
                 Text (cross_mark @ '' Invalid theme: '' @ quote @ a @ quote @ nl @ nl @
                       ''Available themes: dark, light'' @ nl @ nl @ ''Usage: theme <name>'') \<and>
               currentTheme (fst result) = currentTheme st \<and>
               emitted (fst result) = emitted st @ [StateNext PROCESSING, CurrentNext (Some trimmed)] \<and>
               (\<forall>p. currentTheme (fst (subscribe (fst result) p)) = currentTheme st)) \<and>
            (\<forall>a rest. args = a # rest \<and> a \<in> {''dark'', ''light''} \<longrightarrow>
               fst result = fst (changeTheme env st2 a))"
proof -
  let ?trimmed = "toLowerCase (trim rawText)"
  let ?st2 = "currentCommandNext (setExecutionState st PROCESSING) (Some ?trimmed)"
  note run = executeCommand_theme [OF assms, of env sessionId]
  have lower: "toLowerCase a = a" if "args = a # rest" for a rest
    using that assms(2) normalized_pieces_lower [of a "trim rawText"] by simp
  have none: "executeCommand env st rawText sessionId =
      (?st2, Inr \<lparr>source = Inr \<lparr>data_output = theme_list env,
                    nextSuggestions = [''help'', ''summary'', ''aboutme'', ''skills'']\<rparr>,
                 trimmedCommand = ?trimmed\<rparr>)" if "args = []"
    using run that by (simp add: executeThemeCommand_cases(1) Let_def)
  have bad: "executeCommand env st rawText sessionId =
      (?st2, Inr \<lparr>source = Inr \<lparr>data_output = invalid_theme a,
                    nextSuggestions = [''help'', ''summary'', ''aboutme'', ''skills'']\<rparr>,
                 trimmedCommand = ?trimmed\<rparr>)"
    if "args = a # rest" and "a \<notin> {''dark'', ''light''}" for a rest
    using run that lower [OF that(1)] executeThemeCommand_cases(2) [of a env ?st2 rest]
    by (simp add: Let_def)
  have good: "fst (executeCommand env st rawText sessionId) = fst (changeTheme env ?st2 a)"
    if "args = a # rest" and "a \<in> {''dark'', ''light''}" for a rest
    using run that lower [OF that(1)] executeThemeCommand_cases(3) [of a env ?st2 rest]
    by (simp add: Let_def split: prod.splits)
  have st2: "currentTheme ?st2 = currentTheme st"
    "emitted ?st2 = emitted st @ [StateNext PROCESSING, CurrentNext (Some ?trimmed)]"
    by (simp_all add: currentCommandNext_def setExecutionState_def)
  have sub: "currentTheme (fst (subscribe s p)) = currentTheme s" for s p
    by (simp add: subscribe_def finalize_effects)
  have style: "otype (invalid_theme a) = ''text''"
    "map_option color (format (invalid_theme a)) = Some ''red''"
    "content (invalid_theme a) =
       Text (cross_mark @ '' Invalid theme: '' @ quote @ a @ quote @ nl @ nl @
             ''Available themes: dark, light'' @ nl @ nl @ ''Usage: theme <name>'')" for a
    by (simp_all add: invalid_theme_def plain_def)
  have listing: "otype (theme_list env) = ''text''"
    "map_option color (format (theme_list env)) = Some ''blue''"
    "content (theme_list env) =
       Text (''Available themes:'' @ nl @ nl @
             join nl (map (\<lambda>(name, displayName).
                             bullet @ '' '' @ name @ '' - '' @ displayName)
                        (AVAILABLE_THEMES env)) @
             nl @ nl @ ''Usage: theme <name>'')"
    by (simp_all add: theme_list_def plain_def)
  show ?thesis
    unfolding Let_def
    using none bad good st2 sub style listing theme_list_names [of _ _ env]
    by (intro conjI allI impI) simp_all
qed


theorem theme_argument_validation_witness:
  "\<not> isProcessing initial_services \<and>
   split_space (toLowerCase (trim ''theme NEON'')) = ''theme'' # [''neon''] \<and>
   ''neon'' \<notin> {''dark'', ''light''} \<and>
   executeCommand example_env initial_services ''theme NEON'' ''session-1'' =
     (initial_services\<lparr>executionState := PROCESSING, currentCommand := Some ''theme neon'',
        emitted := [StateNext PROCESSING, CurrentNext (Some ''theme neon'')]\<rparr>,
      Inr \<lparr>source = Inr \<lparr>data_output = invalid_theme ''neon'',
                            nextSuggestions = [''help'', ''summary'', ''aboutme'', ''skills'']\<rparr>,
           trimmedCommand = ''theme neon''\<rparr>) \<and>
   split_space (toLowerCase (trim ''theme'')) = ''theme'' # [] \<and>
   snd (executeCommand example_env initial_services ''theme'' ''session-1'') =
     Inr \<lparr>source = Inr \<lparr>data_output = theme_list example_env,
                           nextSuggestions = [''help'', ''summary'', ''aboutme'', ''skills'']\<rparr>,
          trimmedCommand = ''theme''\<rparr> \<and>
   content (theme_list example_env) =
     Text (''Available themes:'' @ nl @ nl @ bullet @ '' dark - Dark Terminal'' @ nl @
           bullet @ '' light - Light Terminal'' @ nl @ nl @ ''Usage: theme <name>'') \<and>
   (''light'', ''Light Terminal'') \<in> set (AVAILABLE_THEMES example_env) \<and>
   (\<exists>before after.
      content (theme_list example_env) =
        Text (before @ (bullet @ '' '' @ ''light'' @ '' - '' @ ''Light Terminal'') @ after)) \<and>
   split_space (toLowerCase (trim ''theme Light'')) = ''theme'' # [''light''] \<and>
   ''light'' \<in> {''dark'', ''light''} \<and>
   currentTheme (fst (executeCommand example_env initial_services ''theme Light'' ''session-1'')) =
     ''light''"
proof -
  have idle: "\<not> isProcessing initial_services"
    by (simp add: isProcessing_def initial_services_def)
  have neon: "split_space (toLowerCase (trim ''theme NEON'')) = ''theme'' # [''neon'']"
    and bare: "split_space (toLowerCase (trim ''theme'')) = ''theme'' # []"
    and light: "split_space (toLowerCase (trim ''theme Light'')) = ''theme'' # [''light'']"
    by code_simp+
  have norm: "toLowerCase (trim ''theme NEON'') = ''theme neon''"
    "toLowerCase (trim ''theme'') = ''theme''"
    "toLowerCase (trim ''theme Light'') = ''theme light''"
    by code_simp+
  have out: "[''neon''] = ''neon'' # [] \<and> ''neon'' \<notin> {''dark'', ''light''}"
    and inside: "[''light''] = ''light'' # [] \<and> ''light'' \<in> {''dark'', ''light''}"
    by simp_all
  have table: "AVAILABLE_THEMES example_env =
      [(''dark'', ''Dark Terminal''), (''light'', ''Light Terminal'')]"
    by (simp add: example_env_def)
  then have member: "(''light'', ''Light Terminal'') \<in> set (AVAILABLE_THEMES example_env)"
    by simp
  have changed: "currentTheme (fst (changeTheme example_env s ''light'')) = ''light''" for s
    by (simp add: changeTheme_def table)
  have st2: "currentCommandNext (setExecutionState initial_services PROCESSING) (Some c) =
      initial_services\<lparr>executionState := PROCESSING, currentCommand := Some c,
        emitted := [StateNext PROCESSING, CurrentNext (Some c)]\<rparr>" for c
    by (simp add: currentCommandNext_def setExecutionState_def initial_services_def)
  note invalid = theme_argument_validation [OF idle neon, of example_env "''session-1''",
      unfolded Let_def norm, THEN conjunct2, THEN conjunct1, rule_format, OF out]
  note listing = theme_argument_validation [OF idle bare, of example_env "''session-1''",
      unfolded Let_def norm, THEN conjunct1, rule_format, OF refl]
  note valid = theme_argument_validation [OF idle light, of example_env "''session-1''",
      unfolded Let_def norm, THEN conjunct2, THEN conjunct2, rule_format, OF inside]
  have c1: "executeCommand example_env initial_services ''theme NEON'' ''session-1'' =
     (initial_services\<lparr>executionState := PROCESSING, currentCommand := Some ''theme neon'',
        emitted := [StateNext PROCESSING, CurrentNext (Some ''theme neon'')]\<rparr>,
      Inr \<lparr>source = Inr \<lparr>data_output = invalid_theme ''neon'',
                            nextSuggestions = [''help'', ''summary'', ''aboutme'', ''skills'']\<rparr>,
           trimmedCommand = ''theme neon''\<rparr>)"
    using invalid [THEN conjunct1] by (simp only: st2)
  have c2: "snd (executeCommand example_env initial_services ''theme'' ''session-1'') =
     Inr \<lparr>source = Inr \<lparr>data_output = theme_list example_env,
                           nextSuggestions = [''help'', ''summary'', ''aboutme'', ''skills'']\<rparr>,
          trimmedCommand = ''theme''\<rparr>"
    using listing [THEN conjunct1] by (simp only: snd_conv)
  have c3: "content (theme_list example_env) =
     Text (''Available themes:'' @ nl @ nl @ bullet @ '' dark - Dark Terminal'' @ nl @
           bullet @ '' light - Light Terminal'' @ nl @ nl @ ''Usage: theme <name>'')"
    using listing [THEN conjunct2, THEN conjunct2, THEN conjunct2, THEN conjunct1]
    by (simp add: table)
  note c4 = listing [THEN conjunct2, THEN conjunct2, THEN conjunct2, THEN conjunct2,
      rule_format, OF member]
  have c5: "currentTheme (fst (executeCommand example_env initial_services ''theme Light''
      ''session-1'')) = ''light''"
    using valid by (simp only: changed)
  from out inside have c6: "''neon'' \<notin> {''dark'', ''light''}" and c7: "''light'' \<in> {''dark'', ''light''}"
    by simp_all
  show ?thesis
    by (intro conjI) (rule idle neon bare light member c1 c2 c3 c4 c5 c6 c7)+
qed

section \<open>The skills command\<close>

lemma skills_known_category:
  "category \<noteq> [] \<Longrightarrow> map_of data category = Some entries \<Longrightarrow>
   skills (category # rest) data = plain (Items entries) ''list'' ''blue''"
  by (simp add: skills_def property_def)

lemma skills_fall_through:
  "args = [] \<or> hd args = [] \<or>
   (map_of data (hd args) = None \<and> hd args \<notin> set object_prototype_keys) \<Longrightarrow>
   skills args data = allSkills data"
  by (cases args) (auto simp: skills_def property_def)

lemma skills_inherited_member:
  "category \<in> set object_prototype_keys \<Longrightarrow> map_of data category = None \<Longrightarrow>
   skills (category # rest) data = plain (Inherited category) ''list'' ''blue'' \<and>
   skills (category # rest) data \<noteq> allSkills data"
  by (auto simp: skills_def property_def allSkills_def plain_def object_prototype_keys_def)

text \<open>
  Claim C6, at concrete inputs, with the skills asset of \<open>example_env\<close>: \<open>skills frontend\<close>
  gives the list of exactly the frontend entries, and the unknown category \<open>databases\<close>
  falls through to the text of all categories; but the unknown category \<open>constructor\<close>
  does not fall through: \<open>data['constructor']\<close> is the member inherited from
  \<open>Object.prototype\<close>, which is truthy, so the output has type \<open>list\<close> and that member as
  content.
\<close>

theorem skills_constructor_is_not_all_categories:
  "snd (executeCommand example_env initial_services ''skills frontend'' ''session-1'') =
     Inr \<lparr>source = Inr \<lparr>data_output = plain (Items [''Angular'', ''TypeScript'', ''RxJS''])
                                            ''list'' ''blue'',
                           nextSuggestions = [''experience'', ''education'', ''highlights'', ''tryme'']\<rparr>,
          trimmedCommand = ''skills frontend''\<rparr> \<and>
   snd (executeCommand example_env initial_services ''skills databases'' ''session-1'') =
     Inr \<lparr>source = Inr \<lparr>data_output =
                             allSkills [(''frontend'', [''Angular'', ''TypeScript'', ''RxJS'']),
                                        (''backend'', [''Node.js'']), (''tools'', [''Git''])],
                           nextSuggestions = [''experience'', ''education'', ''highlights'', ''tryme'']\<rparr>,
          trimmedCommand = ''skills databases''\<rparr> \<and>
   snd (executeCommand example_env initial_services ''skills constructor'' ''session-1'') =
     Inr \<lparr>source = Inr \<lparr>data_output = plain (Inherited ''constructor'') ''list'' ''blue'',
                           nextSuggestions = [''experience'', ''education'', ''highlights'', ''tryme'']\<rparr>,
          trimmedCommand = ''skills constructor''\<rparr> \<and>
   plain (Inherited ''constructor'') ''list'' ''blue'' \<noteq>
     allSkills [(''frontend'', [''Angular'', ''TypeScript'', ''RxJS'']),
                (''backend'', [''Node.js'']), (''tools'', [''Git''])]"
  by code_simp


section \<open>The text formatter on marker-free input\<close>

lemma lazy_until_Some:
  "lazy_until d t = Some (x, r) \<Longrightarrow> t = x @ d @ r \<and> (\<forall>c \<in> set x. \<not> is_line_terminator c)"
proof (induction t arbitrary: x)
  case Nil
  then show ?case by (simp split: if_splits)
next
  case (Cons a t)
  show ?case
  proof (cases "prefix d (a # t)")
    case True
    then have "a # t = d @ drop (length d) (a # t)"
      by (metis append_eq_conv_conj prefix_def)
    with True Cons.prems show ?thesis by simp
  next
    case False
    with Cons.prems obtain y where "lazy_until d t = Some (y, r)" and "x = a # y"
      and "\<not> is_line_terminator a"
      by (auto split: if_splits)
    with Cons.IH [of y] show ?thesis by simp
  qed
qed

lemma has_marker_Cons: "has_marker d s \<Longrightarrow> has_marker d (a # s)"
  unfolding has_marker_def
proof (elim exE conjE)
  fix pre x post
  assume "s = pre @ d @ x @ d @ post" and "\<forall>c \<in> set x. \<not> is_line_terminator c"
  then have "a # s = (a # pre) @ d @ x @ d @ post \<and> (\<forall>c \<in> set x. \<not> is_line_terminator c)"
    by simp
  then show "\<exists>pre x post. a # s = pre @ d @ x @ d @ post \<and> (\<forall>c \<in> set x. \<not> is_line_terminator c)"
    by blast
qed

lemma replace_delimited_unmarked:
  "\<not> has_marker d s \<Longrightarrow> replace_delimited d opn cls s = s"
proof (induction d opn cls s rule: replace_delimited.induct)
  case (1 d opn cls)
  show ?case by simp
next
  case (2 d opn cls c cs)
  from "2.prems" have tail: "\<not> has_marker d cs"
    using has_marker_Cons by blast
  show ?case
  proof (cases "d \<noteq> [] \<and> prefix d (c # cs)")
    case False
    with "2.IH"(3) tail show ?thesis by auto
  next
    case True
    then have split: "c # cs = d @ drop (length d) (c # cs)"
      by (metis append_eq_conv_conj prefix_def)
    show ?thesis
    proof (cases "lazy_until d (drop (length d) (c # cs))")
      case None
      from "2.IH"(1) [OF True None tail] True None show ?thesis by simp
    next
      case (Some xr)
      obtain x r where xr: "xr = (x, r)" by (cases xr)
      from lazy_until_Some [OF Some [unfolded xr]] split
      have "c # cs = [] @ d @ x @ d @ r \<and> (\<forall>c \<in> set x. \<not> is_line_terminator c)"
        by simp
      then have "has_marker d (c # cs)"
        unfolding has_marker_def by blast
      with "2.prems" show ?thesis by blast
    qed
  qed
qed

lemma replace_newlines_none: "CHR 0x0A \<notin> set s \<Longrightarrow> replace_newlines s = s"
  by (induction s) (auto simp: replace_newlines_def)

lemma processTextContent_marker_free: "marker_free s \<Longrightarrow> processTextContent s = s"
  by (simp add: marker_free_def processTextContent_def replace_delimited_unmarked
      replace_newlines_none)


lemma has_marker_count:
  assumes "has_marker (a # d) s"
  shows "2 \<le> count_list s a"
proof -
  from assms obtain pre x post where "s = pre @ (a # d) @ x @ (a # d) @ post"
    unfolding has_marker_def by blast
  then show ?thesis by simp
qed

text \<open>
  Claim C9. On a marker-free string \<open>processTextContent\<close> is the identity: the content of
  \<open>formatText\<close> is the original string, and formatting twice is formatting once.
\<close>

theorem processTextContent_identity_on_marker_free:
  assumes "marker_free s"
  shows "processTextContent s = s \<and> content (formatText s f) = Text s \<and>
         processTextContent (processTextContent s) = processTextContent s"
  using assms by (simp add: processTextContent_marker_free formatText_def)

theorem processTextContent_identity_on_marker_free_witness:
  "marker_free ''3 * 4 = 12, see README'' \<and>
   processTextContent ''3 * 4 = 12, see README'' = ''3 * 4 = 12, see README'' \<and>
   content (formatText ''3 * 4 = 12, see README'' None) = Text ''3 * 4 = 12, see README''"
proof -
  let ?s = "''3 * 4 = 12, see README''"
  have "count_list ?s (CHR ''*'') < 2" and "count_list ?s (CHR ''`'') < 2"
    by simp_all
  then have "\<not> has_marker ''**'' ?s" and "\<not> has_marker ''*'' ?s" and "\<not> has_marker ''`'' ?s"
    using has_marker_count [of "CHR ''*''" "''*''" ?s] has_marker_count [of "CHR ''*''" "[]" ?s]
      has_marker_count [of "CHR ''`''" "[]" ?s]
    by linarith+
  moreover have "CHR 0x0A \<notin> set ?s"
    by simp
  ultimately have free: "marker_free ?s"
    by (simp only: marker_free_def simp_thms)
  from processTextContent_identity_on_marker_free [OF free, of None] free
  show ?thesis by simp
qed


end
